theory Spec2Isabelle
  imports Complex_Main
begin

section \<open>Streaming anomaly detection by matrix sketching (anom_detect.py)\<close>

text \<open>
  The class \<open>AnomDetect\<close> keeps an orthogonal basis \<open>U\<close> and a sketched matrix \<open>B\<close>.
  Its constructor and its method \<open>sketch_update\<close> run a truncated singular value
  decomposition followed by the shrink step of Frequent Directions; \<open>detect\<close> scores the
  columns of a batch, splits the column indices, and updates the sketch.

  Modelling decisions.
  \<^item> numpy's float64 arrays are idealised: an entry is a \<open>real\<close>, a vector a list, a matrix
    the list of its rows. A matrix with \<open>m\<close> rows and no column is \<open>replicate m []\<close>.
  \<^item> \<open>numpy.linalg.svd\<close> is a library routine; it is a parameter \<open>svd\<close> of the model, and
    what the library guarantees of its result is written as the predicates \<open>svd_shape\<close>,
    \<open>svd_orthonormal\<close> and \<open>svd_sorted\<close>, assumed only for the matrix it is called on.
  \<^item> an exception of the Python program is a value \<open>Inl e\<close>. The reals have no NaN, so
    \<open>numpy.sqrt\<close> of a negative number, which yields NaN, ends the run with
    \<open>Inl InvalidValue\<close>.
  \<^item> the object's fields are the record \<open>state\<close>, passed in and returned.
  \<^item> numpy raises \<open>ValueError\<close> when shapes do not fit. The model raises it where the batch
    or the sketch has the wrong number of rows; elsewhere the list operations would cut to
    the shorter operand, and the theorems are stated for matrices of fitting shapes
    (\<open>is_mat\<close>), which is what every state built by the constructor has.
\<close>

subsection \<open>Vectors and matrices\<close>

type_synonym vec = "real list"
type_synonym mat = "real list list"

datatype error = ValueError | IndexError | UnboundLocalError | InvalidValue

definition nrows :: "mat \<Rightarrow> nat" where
  "nrows A = length A"

definition ncols :: "mat \<Rightarrow> nat" where
  "ncols A = (case A of [] \<Rightarrow> 0 | r # _ \<Rightarrow> length r)"

definition is_mat :: "nat \<Rightarrow> nat \<Rightarrow> mat \<Rightarrow> bool" where
  "is_mat m n A = (length A = m \<and> list_all (\<lambda>r. length r = n) A)"

definition dot :: "vec \<Rightarrow> vec \<Rightarrow> real" where
  "dot xs ys = sum_list (map2 (*) xs ys)"

definition col :: "mat \<Rightarrow> nat \<Rightarrow> vec" where
  "col A j = map (\<lambda>r. r ! j) A"

definition transpose_m :: "mat \<Rightarrow> mat" where
  "transpose_m A = map (col A) [0..<ncols A]"

definition identity :: "nat \<Rightarrow> mat" where
  "identity n = map (\<lambda>i. map (\<lambda>j. if i = j then 1 else 0) [0..<n]) [0..<n]"

definition diag :: "vec \<Rightarrow> mat" where
  "diag s = map (\<lambda>i. map (\<lambda>j. if i = j then s ! i else 0) [0..<length s]) [0..<length s]"

definition mat_sub :: "mat \<Rightarrow> mat \<Rightarrow> mat" where
  "mat_sub A B = map2 (map2 (-)) A B"

definition vec_sub :: "vec \<Rightarrow> vec \<Rightarrow> vec" where
  "vec_sub xs ys = map2 (-) xs ys"

definition mat_mul :: "mat \<Rightarrow> mat \<Rightarrow> mat" where
  "mat_mul A B = map (\<lambda>r. map (\<lambda>j. dot r (col B j)) [0..<ncols B]) A"

definition mat_vec :: "mat \<Rightarrow> vec \<Rightarrow> vec" where
  "mat_vec A y = map (\<lambda>r. dot r y) A"

definition norm2 :: "vec \<Rightarrow> real" where
  "norm2 v = sqrt (sum_list (map (\<lambda>x. x\<^sup>2) v))"

definition hstack :: "mat \<Rightarrow> mat \<Rightarrow> mat" where
  "hstack A B = map2 (@) A B"

definition select_cols :: "mat \<Rightarrow> nat list \<Rightarrow> mat" where
  "select_cols Y idx = map (\<lambda>r. map (\<lambda>j. r ! j) idx) Y"

subsection \<open>Python and numpy primitives\<close>

definition py_int :: "real \<Rightarrow> int" where
  "py_int x = (if 0 \<le> x then \<lfloor>x\<rfloor> else \<lceil>x\<rceil>)"

definition slice_to :: "int \<Rightarrow> 'a list \<Rightarrow> 'a list" where
  "slice_to k xs = (if 0 \<le> k then take (nat k) xs else take (length xs - nat (- k)) xs)"

definition slice_from :: "int \<Rightarrow> 'a list \<Rightarrow> 'a list" where
  "slice_from k xs = (if 0 \<le> k then drop (nat k) xs else drop (length xs - nat (- k)) xs)"

text \<open>
  \<open>numpy.argsort\<close> returns a permutation of the indices that puts the values in ascending
  order. With the default kind, as the code calls it, the library promises no order among
  equal values. What it does promise is the predicate \<open>ascending_argsort\<close>; the function
  \<open>argsort\<close> of the model is one such permutation, the one a stable sort gives.
\<close>

definition ascending_argsort :: "real list \<Rightarrow> nat list \<Rightarrow> bool" where
  "ascending_argsort xs idx =
     (distinct idx \<and> set idx = {0..<length xs} \<and> sorted (map (\<lambda>i. xs ! i) idx))"

definition argsort :: "real list \<Rightarrow> nat list" where
  "argsort xs = sort_key (\<lambda>i. xs ! i) [0..<length xs]"

definition default_ell :: "nat \<Rightarrow> nat" where
  "default_ell m = nat \<lfloor>sqrt (real m)\<rfloor>"

fun sqrt_search :: "nat \<Rightarrow> nat \<Rightarrow> nat" where
  "sqrt_search n 0 = 0"
| "sqrt_search n (Suc k) = (if Suc k * Suc k \<le> n then Suc k else sqrt_search n k)"

subsection \<open>The detector\<close>

record state =
  st_criterion :: string
  st_criterion_v :: real
  st_m :: nat
  st_ell :: nat
  st_U :: mat
  st_B :: mat

type_synonym svd_fun = "mat \<Rightarrow> mat \<times> vec \<times> mat"

definition fd_shrink :: "vec \<Rightarrow> error + vec" where
  "fd_shrink s =
     (if s = [] then Inl IndexError
      else let delta = (last s)\<^sup>2 in
        if list_ex (\<lambda>x. x\<^sup>2 - delta < 0) s then Inl InvalidValue
        else Inr (map (\<lambda>x. sqrt (x\<^sup>2 - delta)) s))"

definition truncate_shrink :: "svd_fun \<Rightarrow> nat \<Rightarrow> mat \<Rightarrow> error + (mat \<times> vec \<times> mat)" where
  "truncate_shrink svd ell D =
     (case svd D of (Uf, sf, V) \<Rightarrow>
        let U = map (take ell) Uf; s = take ell sf in
        (case fd_shrink s of
           Inl e \<Rightarrow> Inl e
         | Inr s' \<Rightarrow>
             if ncols U \<noteq> length s' then Inl ValueError
             else Inr (U, s', mat_mul U (diag s'))))"

definition anom_init :: "svd_fun \<Rightarrow> mat \<Rightarrow> string \<Rightarrow> real \<Rightarrow> int \<Rightarrow> error + state" where
  "anom_init svd Y0 criterion criterion_v ell =
     (let m = nrows Y0;
          l = (if ell < 1 then default_ell m else nat ell)
      in case truncate_shrink svd l Y0 of
           Inl e \<Rightarrow> Inl e
         | Inr (U, s, B) \<Rightarrow>
             Inr \<lparr>st_criterion = criterion, st_criterion_v = criterion_v,
                  st_m = m, st_ell = l, st_U = U, st_B = B\<rparr>)"

definition sketch_update :: "svd_fun \<Rightarrow> state \<Rightarrow> mat \<Rightarrow> error + state" where
  "sketch_update svd st Y =
     (if nrows (st_B st) \<noteq> nrows Y then Inl ValueError
      else let D = hstack (st_B st) Y in
        case truncate_shrink svd (st_ell st) D of
          Inl e \<Rightarrow> Inl e
        | Inr (U, s, B) \<Rightarrow> Inr (st\<lparr>st_U := U, st_B := B\<rparr>))"

definition anomaly_score :: "nat \<Rightarrow> mat \<Rightarrow> vec \<Rightarrow> real" where
  "anomaly_score m U y =
     norm2 (mat_vec (mat_sub (identity m) (mat_mul U (transpose_m U))) y)"

definition detect_scores :: "state \<Rightarrow> mat \<Rightarrow> real list" where
  "detect_scores st Y =
     map (\<lambda>i. anomaly_score (st_m st) (st_U st) (col Y i)) [0..<ncols Y]"

definition split_indices :: "string \<Rightarrow> real \<Rightarrow> real list \<Rightarrow> error + (nat list \<times> nat list)" where
  "split_indices criterion criterion_v scores =
     (let n = length scores in
      if criterion = ''p'' then
        let sorted_idx = rev (argsort scores);
            n_anomaly = py_int (real n * criterion_v)
        in Inr (slice_to n_anomaly sorted_idx, slice_from n_anomaly sorted_idx)
      else if criterion = ''th'' then
        Inr (filter (\<lambda>i. scores ! i > criterion_v) [0..<n],
             filter (\<lambda>i. scores ! i \<le> criterion_v) [0..<n])
      else Inl UnboundLocalError)"

text \<open>
  The branch \<open>criterion == 'p'\<close> of \<open>detect\<close> once more, with the two library operations
  it relies on as parameters: \<open>asort\<close> for \<open>numpy.argsort\<close> and \<open>fmul\<close> for the floating
  point product \<open>n * p\<close>. With \<open>argsort\<close> and the product of the reals it is the branch
  of \<open>split_indices\<close>.
\<close>

definition percentage_split ::
  "(real list \<Rightarrow> nat list) \<Rightarrow> (real \<Rightarrow> real \<Rightarrow> real) \<Rightarrow> real \<Rightarrow> real list
     \<Rightarrow> nat list \<times> nat list" where
  "percentage_split asort fmul p scores =
     (let n = length scores;
          sorted_idx = rev (asort scores);
          n_anomaly = py_int (fmul (real n) p)
      in (slice_to n_anomaly sorted_idx, slice_from n_anomaly sorted_idx))"

definition detect :: "svd_fun \<Rightarrow> state \<Rightarrow> mat \<Rightarrow> error + ((nat list \<times> nat list) \<times> state)" where
  "detect svd st Y =
     (if nrows Y \<noteq> st_m st then Inl ValueError
      else
        case split_indices (st_criterion st) (st_criterion_v st) (detect_scores st Y) of
          Inl e \<Rightarrow> Inl e
        | Inr (anomaly_idx, non_anomaly_idx) \<Rightarrow>
            (case sketch_update svd st (select_cols Y non_anomaly_idx) of
               Inl e \<Rightarrow> Inl e
             | Inr st' \<Rightarrow> Inr ((anomaly_idx, non_anomaly_idx), st')))"

subsection \<open>What the SVD routine guarantees\<close>

definition svd_shape :: "svd_fun \<Rightarrow> mat \<Rightarrow> bool" where
  "svd_shape svd D =
     (case svd D of (Uf, sf, V) \<Rightarrow>
        is_mat (nrows D) (min (nrows D) (ncols D)) Uf \<and>
        length sf = min (nrows D) (ncols D))"

definition orthonormal_cols :: "mat \<Rightarrow> bool" where
  "orthonormal_cols A = (mat_mul (transpose_m A) A = identity (ncols A))"

definition svd_orthonormal :: "svd_fun \<Rightarrow> mat \<Rightarrow> bool" where
  "svd_orthonormal svd D = (case svd D of (Uf, sf, V) \<Rightarrow> orthonormal_cols Uf)"

definition svd_sorted :: "svd_fun \<Rightarrow> mat \<Rightarrow> bool" where
  "svd_sorted svd D =
     (case svd D of (Uf, sf, V) \<Rightarrow> sorted_wrt (\<ge>) sf \<and> list_all (\<lambda>x. 0 \<le> x) sf)"

definition svd_ok :: "svd_fun \<Rightarrow> mat \<Rightarrow> bool" where
  "svd_ok svd D = (svd_shape svd D \<and> svd_orthonormal svd D \<and> svd_sorted svd D)"

subsection \<open>The formulas of the specification, for comparison\<close>

text \<open>
  The score as the specification words it: the norm of \<open>y - U (U\<^sup>T y)\<close>.
\<close>

definition spec_residual_score :: "mat \<Rightarrow> vec \<Rightarrow> real" where
  "spec_residual_score U y = norm2 (vec_sub y (mat_vec U (mat_vec (transpose_m U) y)))"

text \<open>
  The percentage split as the specification words it: indices sorted by descending score,
  equal scores in their original order, the first \<open>int (n * p)\<close> of them anomalous.
\<close>

definition spec_percentage_split :: "real \<Rightarrow> real list \<Rightarrow> nat list \<times> nat list" where
  "spec_percentage_split p scores =
     (let sorted_idx = sort_key (\<lambda>i. - (scores ! i)) [0..<length scores];
          k = nat (py_int (real (length scores) * p))
      in (take k sorted_idx, drop k sorted_idx))"

text \<open>The shrink step as the specification words it, with the clamp at zero.\<close>

definition spec_shrink :: "nat \<Rightarrow> vec \<Rightarrow> vec" where
  "spec_shrink ell s = map (\<lambda>x. sqrt (max (x\<^sup>2 - (s ! (ell - 1))\<^sup>2) 0)) (take ell s)"

text \<open>The default sketch size as the specification words it.\<close>

definition spec_default_ell :: "nat \<Rightarrow> nat" where
  "spec_default_ell m = nat (round (sqrt (real m)))"

subsection \<open>The state invariant\<close>

definition wf_state :: "state \<Rightarrow> bool" where
  "wf_state st =
     (1 \<le> st_ell st \<and> st_ell st \<le> st_m st \<and>
      is_mat (st_m st) (st_ell st) (st_U st) \<and>
      is_mat (st_m st) (st_ell st) (st_B st) \<and>
      orthonormal_cols (st_U st))"

subsection \<open>Concrete inputs\<close>

text \<open>
  A finite table of singular value decompositions \<open>D = U diag(s) V\<^sup>T\<close>, standing for the
  library routine on the matrices of the worked examples.
\<close>

definition svd_example :: svd_fun where
  "svd_example D =
     (if D = [[1], [0]] then ([[1], [0]], [1], [[1]])
      else if D = [[0], [1]] then ([[0], [1]], [1], [[1]])
      else if D = [[0], [0]] then ([[1], [0]], [0], [[1]])
      else if D = [[0, 3], [0, 0]] then ([[1, 0], [0, 1]], [3, 0], [[0, 1], [1, 0]])
      else if D = [[0, 3, 0], [0, 0, 4]] then
        ([[0, 1], [1, 0]], [4, 3], [[0, 0, 1], [0, 1, 0]])
      else if D = [[1], [0], [0]] then ([[1], [0], [0]], [1], [[1]])
      else if D = [[5, 0], [0, 4]] then ([[1, 0], [0, 1]], [5, 4], [[1, 0], [0, 1]])
      else ([], [], []))"

definition ex_state :: "string \<Rightarrow> real \<Rightarrow> state" where
  "ex_state c v =
     \<lparr>st_criterion = c, st_criterion_v = v, st_m = 2, st_ell = 1,
      st_U = [[1], [0]], st_B = [[0], [0]]\<rparr>"

definition ex_batch :: mat where
  "ex_batch = [[3, 0], [0, 4]]"

section \<open>Auxiliary facts\<close>

subsection \<open>Matrices as lists of rows\<close>

lemma dot_sum:
  "length xs = length ys \<Longrightarrow> dot xs ys = (\<Sum>i = 0..<length xs. xs ! i * ys ! i)"
  by (simp add: dot_def sum_list_sum_nth)

lemma is_mat_row: "is_mat m n A \<Longrightarrow> i < m \<Longrightarrow> length (A ! i) = n"
  by (simp add: is_mat_def list_all_length)

lemma is_mat_nrows: "is_mat m n A \<Longrightarrow> length A = m"
  by (simp add: is_mat_def)

lemma is_mat_ncols: "is_mat m n A \<Longrightarrow> 0 < m \<Longrightarrow> ncols A = n"
  by (cases A) (auto simp: is_mat_def ncols_def)

lemma length_col: "length (col A j) = length A"
  by (simp add: col_def)

lemma col_nth: "i < length A \<Longrightarrow> col A j ! i = A ! i ! j"
  by (simp add: col_def)

lemma is_mat_transpose:
  "is_mat m n A \<Longrightarrow> 0 < m \<Longrightarrow> is_mat n m (transpose_m A)"
  by (simp add: is_mat_def transpose_m_def is_mat_ncols list_all_length length_col)

lemma transpose_nth:
  "is_mat m n A \<Longrightarrow> 0 < m \<Longrightarrow> j < n \<Longrightarrow> transpose_m A ! j = col A j"
  by (simp add: transpose_m_def is_mat_ncols)

lemma col_transpose:
  assumes "is_mat m n A" and "j < m"
  shows "col (transpose_m A) j = A ! j"
proof (rule nth_equalityI)
  from assms have m: "0 < m" by simp
  show "length (col (transpose_m A) j) = length (A ! j)"
    using assms m by (simp add: length_col transpose_m_def is_mat_ncols is_mat_row)
  fix i assume "i < length (col (transpose_m A) j)"
  then have i: "i < n" using assms m by (simp add: length_col transpose_m_def is_mat_ncols)
  then show "col (transpose_m A) j ! i = A ! j ! i"
    using assms m by (simp add: col_def transpose_m_def is_mat_ncols is_mat_nrows)
qed

lemma residual_row:
  assumes U: "is_mat m k U" and k: "0 < k" and y: "length y = m" and i: "i < m"
  shows "mat_vec (mat_sub (identity m) (mat_mul U (transpose_m U))) y ! i
         = vec_sub y (mat_vec U (mat_vec (transpose_m U) y)) ! i"
proof -
  have m: "0 < m" using i by simp
  have lenU: "length U = m" using U by (rule is_mat_nrows)
  have Ut: "is_mat k m (transpose_m U)" using U m by (rule is_mat_transpose)
  have nct: "ncols (transpose_m U) = m" using Ut k by (rule is_mat_ncols)
  have lenUt: "length (transpose_m U) = k" using Ut by (rule is_mat_nrows)
  have rowlen: "\<And>j. j < m \<Longrightarrow> length (U ! j) = k" using U by (rule is_mat_row)
  have lhs_row: "mat_sub (identity m) (mat_mul U (transpose_m U)) ! i
      = map (\<lambda>j. (if i = j then 1 else 0) - dot (U ! i) (U ! j)) [0..<m]"
  proof (rule nth_equalityI)
    show "length (mat_sub (identity m) (mat_mul U (transpose_m U)) ! i)
        = length (map (\<lambda>j. (if i = j then 1 else 0) - dot (U ! i) (U ! j)) [0..<m])"
      using i lenU nct by (simp add: mat_sub_def identity_def mat_mul_def)
    fix j assume "j < length (mat_sub (identity m) (mat_mul U (transpose_m U)) ! i)"
    then have j: "j < m" using i lenU nct by (simp add: mat_sub_def identity_def mat_mul_def)
    show "mat_sub (identity m) (mat_mul U (transpose_m U)) ! i ! j
        = map (\<lambda>j. (if i = j then 1 else 0) - dot (U ! i) (U ! j)) [0..<m] ! j"
      using i j lenU nct col_transpose[OF U j]
      by (simp add: mat_sub_def identity_def mat_mul_def)
  qed
  have lhs: "mat_vec (mat_sub (identity m) (mat_mul U (transpose_m U))) y ! i
      = (\<Sum>j = 0..<m. ((if i = j then 1 else 0) - dot (U ! i) (U ! j)) * y ! j)"
  proof -
    have "length (mat_sub (identity m) (mat_mul U (transpose_m U))) = m"
      using lenU by (simp add: mat_sub_def identity_def mat_mul_def)
    then show ?thesis using i y by (simp add: mat_vec_def lhs_row dot_sum)
  qed
  have delta: "(\<Sum>j = 0..<m. (if i = j then 1 else 0) * y ! j) = y ! i"
    using i by (simp add: if_distrib[of "\<lambda>c. c * _"] sum.delta' cong: if_cong)
  have lhs2: "mat_vec (mat_sub (identity m) (mat_mul U (transpose_m U))) y ! i
      = y ! i - (\<Sum>j = 0..<m. dot (U ! i) (U ! j) * y ! j)"
    unfolding lhs by (simp add: left_diff_distrib sum_subtractf delta)
  have inner: "\<And>j. j < m \<Longrightarrow> dot (U ! i) (U ! j) = (\<Sum>c = 0..<k. U ! i ! c * U ! j ! c)"
    using rowlen i by (simp add: dot_sum)
  have coef: "\<And>c. c < k \<Longrightarrow> mat_vec (transpose_m U) y ! c = (\<Sum>j = 0..<m. U ! j ! c * y ! j)"
    using lenUt transpose_nth[OF U m] y lenU
    by (simp add: mat_vec_def dot_sum length_col col_nth)
  have rhs: "vec_sub y (mat_vec U (mat_vec (transpose_m U) y)) ! i
      = y ! i - (\<Sum>c = 0..<k. U ! i ! c * (\<Sum>j = 0..<m. U ! j ! c * y ! j))"
  proof -
    have "length (mat_vec (transpose_m U) y) = k" using lenUt by (simp add: mat_vec_def)
    then have "dot (U ! i) (mat_vec (transpose_m U) y)
        = (\<Sum>c = 0..<k. U ! i ! c * mat_vec (transpose_m U) y ! c)"
      using rowlen[OF i] by (simp add: dot_sum)
    also have "\<dots> = (\<Sum>c = 0..<k. U ! i ! c * (\<Sum>j = 0..<m. U ! j ! c * y ! j))"
      by (rule sum.cong) (simp_all add: coef)
    finally show ?thesis using i y lenU by (simp add: vec_sub_def mat_vec_def)
  qed
  have swap: "(\<Sum>j = 0..<m. dot (U ! i) (U ! j) * y ! j)
      = (\<Sum>c = 0..<k. U ! i ! c * (\<Sum>j = 0..<m. U ! j ! c * y ! j))"
  proof -
    have "(\<Sum>j = 0..<m. dot (U ! i) (U ! j) * y ! j)
        = (\<Sum>j = 0..<m. \<Sum>c = 0..<k. U ! i ! c * (U ! j ! c * y ! j))"
      by (rule sum.cong) (simp_all add: inner sum_distrib_right mult.assoc)
    also have "\<dots> = (\<Sum>c = 0..<k. \<Sum>j = 0..<m. U ! i ! c * (U ! j ! c * y ! j))"
      by (rule sum.swap)
    also have "\<dots> = (\<Sum>c = 0..<k. U ! i ! c * (\<Sum>j = 0..<m. U ! j ! c * y ! j))"
      by (simp add: sum_distrib_left)
    finally show ?thesis .
  qed
  show ?thesis unfolding lhs2 rhs swap ..
qed

lemma residual_eq:
  assumes U: "is_mat m k U" and k: "0 < k" and y: "length y = m"
  shows "mat_vec (mat_sub (identity m) (mat_mul U (transpose_m U))) y
         = vec_sub y (mat_vec U (mat_vec (transpose_m U) y))"
proof (rule nth_equalityI)
  have lenU: "length U = m" using U by (rule is_mat_nrows)
  show len: "length (mat_vec (mat_sub (identity m) (mat_mul U (transpose_m U))) y)
      = length (vec_sub y (mat_vec U (mat_vec (transpose_m U) y)))"
    using lenU y by (simp add: mat_vec_def mat_sub_def identity_def mat_mul_def vec_sub_def)
  fix i assume "i < length (mat_vec (mat_sub (identity m) (mat_mul U (transpose_m U))) y)"
  then have "i < m"
    using lenU by (simp add: mat_vec_def mat_sub_def identity_def mat_mul_def)
  then show "mat_vec (mat_sub (identity m) (mat_mul U (transpose_m U))) y ! i
      = vec_sub y (mat_vec U (mat_vec (transpose_m U) y)) ! i"
    using residual_row[OF U k y] by simp
qed

subsection \<open>The integer square root\<close>

lemma sqrt_search_spec:
  "sqrt_search n k * sqrt_search n k \<le> n \<and> sqrt_search n k \<le> k \<and>
   (\<forall>j. sqrt_search n k < j \<and> j \<le> k \<longrightarrow> n < j * j)"
proof (induction k)
  case 0
  show ?case by auto
next
  case (Suc k)
  show ?case
  proof (cases "Suc k * Suc k \<le> n")
    case True
    then show ?thesis by simp
  next
    case False
    have "\<And>j. sqrt_search n k < j \<Longrightarrow> j \<le> Suc k \<Longrightarrow> n < j * j"
    proof -
      fix j assume a: "sqrt_search n k < j" "j \<le> Suc k"
      show "n < j * j"
      proof (cases "j = Suc k")
        case True
        with False show ?thesis by simp
      next
        case False
        with a have "j \<le> k" by simp
        with a Suc.IH show ?thesis by blast
      qed
    qed
    with False Suc.IH show ?thesis by (simp add: le_SucI)
  qed
qed

lemma floor_sqrt_eq:
  assumes "r * r \<le> n" and "n < Suc r * Suc r"
  shows "nat \<lfloor>sqrt (real n)\<rfloor> = r"
proof -
  have "real (r * r) \<le> real n"
    using assms(1) by (simp only: of_nat_le_iff)
  then have "(real r)\<^sup>2 \<le> real n"
    by (simp add: power2_eq_square)
  then have lo: "real r \<le> sqrt (real n)" by (rule real_le_rsqrt)
  have "real n < real (Suc r * Suc r)"
    using assms(2) by (simp only: of_nat_less_iff)
  then have "real n < (real r + 1)\<^sup>2"
    by (simp add: power2_eq_square algebra_simps)
  then have hi: "sqrt (real n) < real r + 1" by (intro real_less_lsqrt) simp_all
  have "\<lfloor>sqrt (real n)\<rfloor> = int r"
    by (rule floor_unique) (use lo hi in simp_all)
  then show ?thesis by simp
qed

lemma default_ell_search: "default_ell m = sqrt_search m m"
proof -
  let ?r = "sqrt_search m m"
  have sp: "?r * ?r \<le> m" "?r \<le> m" "\<And>j. ?r < j \<Longrightarrow> j \<le> m \<Longrightarrow> m < j * j"
    using sqrt_search_spec[of m m] by blast+
  have "m < Suc ?r * Suc ?r"
  proof (cases "Suc ?r \<le> m")
    case True
    then show ?thesis using sp(3)[of "Suc ?r"] by simp
  next
    case False
    then have "m < Suc ?r" by simp
    also have "Suc ?r \<le> Suc ?r * Suc ?r" by simp
    finally show ?thesis .
  qed
  with sp(1) show ?thesis unfolding default_ell_def by (rule floor_sqrt_eq)
qed

subsection \<open>Splitting the indices\<close>

lemma slice_append: "slice_to k xs @ slice_from k xs = xs"
  by (simp add: slice_to_def slice_from_def)

lemma argsort_set: "set (argsort xs) = {0..<length xs}"
  by (simp add: argsort_def)

lemma argsort_distinct: "distinct (argsort xs)"
  by (simp add: argsort_def)

lemma split_p_append:
  "split_indices ''p'' v scores = Inr (a, b) \<Longrightarrow> a @ b = rev (argsort scores)"
  by (auto simp: split_indices_def Let_def slice_append)

lemma split_p_total: "\<exists>a b. split_indices ''p'' v scores = Inr (a, b)"
  by (simp add: split_indices_def Let_def)

lemma split_th_eq:
  "split_indices ''th'' v scores =
     Inr (filter (\<lambda>i. scores ! i > v) [0..<length scores],
          filter (\<lambda>i. scores ! i \<le> v) [0..<length scores])"
  by (simp add: split_indices_def Let_def)

lemma split_partition:
  assumes "c = ''p'' \<or> c = ''th''" and "split_indices c v scores = Inr (a, b)"
  shows "distinct a \<and> distinct b \<and> set a \<inter> set b = {} \<and> set a \<union> set b = {0..<length scores}
         \<and> length a + length b = length scores"
proof -
  from assms(1) show ?thesis
  proof
    assume c: "c = ''p''"
    with assms(2) have ab: "a @ b = rev (argsort scores)" by (simp add: split_p_append)
    have d: "distinct (a @ b)" unfolding ab by (simp add: argsort_distinct)
    have s: "set (a @ b) = {0..<length scores}" unfolding ab by (simp add: argsort_set)
    have l: "length (a @ b) = length scores" unfolding ab by (simp add: argsort_def)
    from d s l show ?thesis by auto
  next
    assume c: "c = ''th''"
    with assms(2) have a: "a = filter (\<lambda>i. scores ! i > v) [0..<length scores]"
      and b: "b = filter (\<lambda>i. scores ! i \<le> v) [0..<length scores]"
      by (simp_all add: split_th_eq)
    have "length a + length b = length [0..<length scores]"
      unfolding a b using sum_length_filter_compl[of "\<lambda>i. scores ! i > v" "[0..<length scores]"] by (simp add: not_less)
    then show ?thesis unfolding a b by auto
  qed
qed

lemma detect_Inr_split:
  "detect svd st Y = Inr r \<Longrightarrow>
   split_indices (st_criterion st) (st_criterion_v st) (detect_scores st Y) = Inr (fst r)"
  by (auto simp: detect_def split: if_splits sum.splits prod.splits)

lemma length_detect_scores: "length (detect_scores st Y) = ncols Y"
  by (simp add: detect_scores_def)

lemma py_int_bounds:
  assumes "0 \<le> t" and "t \<le> real n"
  shows "0 \<le> py_int t \<and> nat (py_int t) \<le> n"
proof -
  have "\<lfloor>t\<rfloor> \<le> \<lfloor>real n\<rfloor>" using assms(2) by (rule floor_mono)
  then have "\<lfloor>t\<rfloor> \<le> int n" by simp
  moreover have "0 \<le> \<lfloor>t\<rfloor>" using assms(1) by simp
  ultimately show ?thesis using assms(1) by (simp add: py_int_def)
qed

lemma real_product_bounds:
  assumes "0 \<le> p" and "p \<le> 1"
  shows "0 \<le> real n * p \<and> real n * p \<le> real n"
proof -
  have "real n * p \<le> real n * 1" using assms(2) by (intro mult_left_mono) simp_all
  then show ?thesis using assms(1) by simp
qed

lemma ascending_argsort_length:
  assumes "ascending_argsort xs idx"
  shows "length idx = length xs"
proof -
  from assms have d: "distinct idx" and s: "set idx = {0..<length xs}"
    by (simp_all add: ascending_argsort_def)
  have "length idx = card (set idx)" using d by (simp only: distinct_card)
  also have "\<dots> = length xs" by (simp add: s)
  finally show ?thesis .
qed

lemma argsort_ascending: "ascending_argsort xs (argsort xs)"
  by (simp add: ascending_argsort_def argsort_def)

lemma ascending_split_order:
  assumes "sorted (map f L)" and "rev L = a @ b" and "i \<in> set a" and "j \<in> set b"
  shows "f j \<le> (f i :: real)"
proof -
  have L: "L = rev b @ rev a" using assms(2) by (metis rev_append rev_rev_ident)
  have "sorted (map f (rev b) @ map f (rev a))" using assms(1) unfolding L by simp
  then have "\<forall>x\<in>set (map f (rev b)). \<forall>y\<in>set (map f (rev a)). x \<le> y"
    unfolding sorted_append by blast
  then show ?thesis using assms(3,4) by simp
qed

lemma percentage_split_props:
  assumes asc: "ascending_argsort scores (asort scores)"
    and lo: "0 \<le> fmul (real (length scores)) p"
    and hi: "fmul (real (length scores)) p \<le> real (length scores)"
  shows "\<exists>a b. percentage_split asort fmul p scores = (a, b) \<and>
           int (length a) = py_int (fmul (real (length scores)) p) \<and>
           distinct (a @ b) \<and> set (a @ b) = {0..<length scores} \<and>
           (\<forall>i\<in>set a. \<forall>j\<in>set b. scores ! j \<le> scores ! i)"
proof -
  let ?k = "py_int (fmul (real (length scores)) p)"
  let ?L = "rev (asort scores)"
  let ?a = "take (nat ?k) ?L" and ?b = "drop (nat ?k) ?L"
  have k: "0 \<le> ?k" "nat ?k \<le> length scores" using py_int_bounds[OF lo hi] by blast+
  have len: "length (asort scores) = length scores" using asc by (rule ascending_argsort_length)
  have d: "distinct (asort scores)" and st: "set (asort scores) = {0..<length scores}"
    and so: "sorted (map (\<lambda>i. scores ! i) (asort scores))"
    using asc by (simp_all add: ascending_argsort_def)
  have s: "percentage_split asort fmul p scores = (?a, ?b)"
    using k(1) by (simp add: percentage_split_def Let_def slice_to_def slice_from_def)
  have l: "int (length ?a) = ?k" using k len by simp
  have dd: "distinct (?a @ ?b)" using d by simp
  have ss: "set (?a @ ?b) = {0..<length scores}" using st by simp
  have ord: "\<forall>i\<in>set ?a. \<forall>j\<in>set ?b. scores ! j \<le> scores ! i"
    using ascending_split_order[OF so, of ?a ?b] by simp
  from s l dd ss ord show ?thesis by blast
qed

lemma split_p_percentage:
  "split_indices ''p'' p scores = Inr (percentage_split argsort (*) p scores)"
  by (simp add: split_indices_def percentage_split_def Let_def)

lemma scenario_sorted_unique:
  assumes "ascending_argsort [1/10, 5, 2/10, 4] idx"
  shows "idx = [0, 2, 3, 1]"
proof -
  let ?f = "\<lambda>i. [1/10, 5, 2/10, 4 :: real] ! i"
  have dom: "{0..<length [1/10, 5, 2/10, 4 :: real]} = {0, 1, 2, 3}" by auto
  have d: "distinct idx" and st: "set idx = {0, 1, 2, 3}" and so: "sorted (map ?f idx)"
    using assms dom by (simp_all add: ascending_argsort_def)
  have inj: "inj_on ?f {0, 1, 2, 3}" by simp
  have 1: "distinct (map ?f idx)" using d inj st by (simp add: distinct_map)
  have 2: "set (map ?f idx) = set (map ?f [0, 2, 3, 1])" using st by auto
  have 3: "sorted (map ?f [0, 2, 3, 1])" by simp
  have 4: "distinct (map ?f [0, 2, 3, 1])" by simp
  have "map ?f idx = map ?f [0, 2, 3, 1]"
    using so 1 3 4 2 by (rule sorted_distinct_set_unique)
  moreover have "inj_on ?f (set idx \<union> set [0, 2, 3, 1])" using inj st by (simp add: insert_commute)
  ultimately show ?thesis by (simp only: inj_on_map_eq_map)
qed

subsection \<open>Fields that no operation changes\<close>

lemma anom_init_fields:
  assumes "anom_init svd Y0 c v ell = Inr st"
  shows "st_ell st = (if ell < 1 then default_ell (nrows Y0) else nat ell)"
    and "st_m st = nrows Y0" and "st_criterion st = c" and "st_criterion_v st = v"
  using assms by (auto simp: anom_init_def Let_def split: sum.splits prod.splits)

lemma sketch_update_fields:
  assumes "sketch_update svd st Y = Inr st'"
  shows "st_ell st' = st_ell st" and "st_m st' = st_m st"
    and "st_criterion st' = st_criterion st" and "st_criterion_v st' = st_criterion_v st"
  using assms by (auto simp: sketch_update_def Let_def split: if_splits sum.splits prod.splits)

lemma detect_Inr_update:
  "detect svd st Y = Inr r \<Longrightarrow> sketch_update svd st (select_cols Y (snd (fst r))) = Inr (snd r)"
  by (auto simp: detect_def split: if_splits sum.splits prod.splits)

subsection \<open>The shrink step\<close>

lemma sorted_desc_last_le:
  assumes "sorted_wrt (\<ge>) s" and "x \<in> set s"
  shows "last s \<le> (x::real)"
proof -
  from assms(2) have ne: "s \<noteq> []" by auto
  then have s: "s = butlast s @ [last s]" by simp
  from assms(1) have "sorted_wrt (\<ge>) (butlast s @ [last s])" using s by simp
  then have "\<forall>y\<in>set (butlast s). last s \<le> y" unfolding sorted_wrt_append by simp
  moreover have "x \<in> set (butlast s) \<or> x = last s"
    using assms(2) by (subst (asm) s) auto
  ultimately show ?thesis by auto
qed

lemma shrink_radicand_nonneg:
  assumes "sorted_wrt (\<ge>) (s::real list)" and "list_all (\<lambda>x. 0 \<le> x) s" and "x \<in> set s"
  shows "0 \<le> x\<^sup>2 - (last s)\<^sup>2"
proof -
  have ne: "s \<noteq> []" using assms(3) by auto
  have "last s \<le> x" using sorted_desc_last_le[OF assms(1,3)] .
  moreover have "0 \<le> last s" using assms(2) ne by (simp add: list_all_iff)
  ultimately have "(last s)\<^sup>2 \<le> x\<^sup>2" by (intro power_mono) simp_all
  then show ?thesis by simp
qed

lemma fd_shrink_sorted:
  assumes "sorted_wrt (\<ge>) s" and "list_all (\<lambda>x. 0 \<le> x) s" and "s \<noteq> []"
  shows "fd_shrink s = Inr (map (\<lambda>x. sqrt (x\<^sup>2 - (last s)\<^sup>2)) s)"
proof -
  have "\<not> list_ex (\<lambda>x. x\<^sup>2 - (last s)\<^sup>2 < 0) s"
    using shrink_radicand_nonneg[OF assms(1,2)] by (auto simp: list_ex_iff not_less)
  then show ?thesis using assms(3) by (simp add: fd_shrink_def Let_def)
qed

lemma fd_shrink_Inr:
  assumes "fd_shrink s = Inr s'"
  shows "s \<noteq> [] \<and> length s' = length s \<and> last s' = 0 \<and> (\<forall>x\<in>set s'. 0 \<le> x)"
proof -
  from assms have ne: "s \<noteq> []" by (auto simp: fd_shrink_def split: if_splits)
  from assms ne have nn: "\<forall>x\<in>set s. 0 \<le> x\<^sup>2 - (last s)\<^sup>2"
    by (auto simp: fd_shrink_def Let_def list_ex_iff not_less split: if_splits)
  from assms ne have s': "s' = map (\<lambda>x. sqrt (x\<^sup>2 - (last s)\<^sup>2)) s"
    by (auto simp: fd_shrink_def Let_def split: if_splits)
  have "last s' = 0" unfolding s' using ne by (simp add: last_map)
  moreover have "\<forall>x\<in>set s'. 0 \<le> x" unfolding s' using nn by auto
  ultimately show ?thesis using ne s' by simp
qed

lemma take_desc:
  "sorted_wrt (\<ge>) (s::real list) \<Longrightarrow> sorted_wrt (\<ge>) (take ell s)"
  by (rule sorted_wrt_take)

lemma take_nonneg:
  "list_all (\<lambda>x. 0 \<le> x) (s::real list) \<Longrightarrow> list_all (\<lambda>x. 0 \<le> x) (take ell s)"
  by (auto simp: list_all_iff dest: in_set_takeD)

lemma spec_shrink_eq:
  assumes "sorted_wrt (\<ge>) (s::real list)" and "list_all (\<lambda>x. 0 \<le> x) s" and "1 \<le> ell" and "ell \<le> length s"
  shows "fd_shrink (take ell s) = Inr (spec_shrink ell s)"
proof -
  let ?t = "take ell s"
  have ne: "?t \<noteq> []" using assms(3,4) by auto
  have lt: "last ?t = s ! (ell - 1)"
    using assms(3,4) ne by (simp add: last_conv_nth)
  have "fd_shrink ?t = Inr (map (\<lambda>x. sqrt (x\<^sup>2 - (last ?t)\<^sup>2)) ?t)"
    using take_desc[OF assms(1)] take_nonneg[OF assms(2)] ne by (rule fd_shrink_sorted)
  also have "map (\<lambda>x. sqrt (x\<^sup>2 - (last ?t)\<^sup>2)) ?t = spec_shrink ell s"
    unfolding spec_shrink_def
  proof (rule map_cong[OF refl])
    fix x assume "x \<in> set ?t"
    then have "0 \<le> x\<^sup>2 - (last ?t)\<^sup>2"
      using shrink_radicand_nonneg[OF take_desc[OF assms(1)] take_nonneg[OF assms(2)]] by blast
    then show "sqrt (x\<^sup>2 - (last ?t)\<^sup>2) = sqrt (max (x\<^sup>2 - (s ! (ell - 1))\<^sup>2) 0)"
      by (simp add: lt max_def)
  qed
  finally show ?thesis .
qed

subsection \<open>Truncation and shrinking of an SVD result\<close>

lemma ncols_nth0: "A \<noteq> [] \<Longrightarrow> ncols A = length (A ! 0)"
  by (cases A) (simp_all add: ncols_def)

lemma ncols_diag:
  assumes "s \<noteq> []"
  shows "ncols (diag s) = length s"
proof -
  have l: "length (diag s) = length s" by (simp add: diag_def)
  then have "diag s \<noteq> []" using assms by auto
  then have "ncols (diag s) = length (diag s ! 0)" by (rule ncols_nth0)
  also have "\<dots> = length s" using assms by (simp add: diag_def)
  finally show ?thesis .
qed

lemma is_mat_mul_diag:
  assumes "length U = m" and "s \<noteq> []"
  shows "is_mat m (length s) (mat_mul U (diag s))"
  using assms by (simp add: is_mat_def mat_mul_def ncols_diag list_all_iff)

lemma is_mat_take:
  assumes "is_mat m k Uf"
  shows "is_mat m (min ell k) (map (take ell) Uf)"
  using assms by (auto simp: is_mat_def list_all_iff min_def)

lemma col_take: "i < ell \<Longrightarrow> col (map (take ell) A) i = col A i"
  by (simp add: col_def)

lemma orthonormal_cols_iff:
  "orthonormal_cols A \<longleftrightarrow>
     (\<forall>i<ncols A. \<forall>j<ncols A. dot (col A i) (col A j) = (if i = j then 1 else 0))"
  by (simp add: orthonormal_cols_def mat_mul_def transpose_m_def identity_def Ball_def)

lemma orthonormal_take:
  assumes "is_mat m k Uf" and "0 < m" and "orthonormal_cols Uf"
  shows "orthonormal_cols (map (take ell) Uf)"
proof -
  have nc: "ncols Uf = k" using assms(1,2) by (rule is_mat_ncols)
  have nct: "ncols (map (take ell) Uf) = min ell k"
    using is_mat_take[OF assms(1)] assms(2) by (rule is_mat_ncols)
  show ?thesis
    unfolding orthonormal_cols_iff nct
    using assms(3) unfolding orthonormal_cols_iff nc 
    by (simp add: col_take)
qed

lemma dot_replicate_zero: "dot r (replicate k 0) = 0"
proof (induction r arbitrary: k)
  case Nil
  show ?case by (simp add: dot_def)
next
  case (Cons x r)
  show ?case
  proof (cases k)
    case 0
    then show ?thesis by (simp add: dot_def)
  next
    case (Suc k')
    with Cons.IH[of k'] show ?thesis by (simp add: dot_def)
  qed
qed

lemma last_col_zero:
  assumes "s \<noteq> []" and "last s = 0"
  shows "col (mat_mul U (diag s)) (length s - 1) = replicate (length U) 0"
proof -
  let ?k = "length s"
  have k: "?k - 1 < ?k" using assms(1) by simp
  have c: "col (diag s) (?k - 1) = replicate ?k 0"
  proof (rule nth_equalityI)
    show "length (col (diag s) (?k - 1)) = length (replicate ?k (0::real))"
      by (simp add: col_def diag_def)
    fix i assume "i < length (col (diag s) (?k - 1))"
    then have i: "i < ?k" by (simp add: col_def diag_def)
    have "s ! (?k - 1) = 0" using assms by (simp add: last_conv_nth)
    then show "col (diag s) (?k - 1) ! i = replicate ?k 0 ! i"
      using i k by (simp add: col_def diag_def)
  qed
  show ?thesis
  proof (rule nth_equalityI)
    show "length (col (mat_mul U (diag s)) (?k - 1)) = length (replicate (length U) (0::real))"
      by (simp add: col_def mat_mul_def)
    fix i assume "i < length (col (mat_mul U (diag s)) (?k - 1))"
    then have i: "i < length U" by (simp add: col_def mat_mul_def)
    then have "col (mat_mul U (diag s)) (?k - 1) ! i = mat_mul U (diag s) ! i ! (?k - 1)"
      by (simp add: col_nth mat_mul_def)
    also have "\<dots> = dot (U ! i) (col (diag s) (?k - 1))"
      using i k by (simp add: mat_mul_def ncols_diag[OF assms(1)])
    also have "\<dots> = 0" by (simp only: c dot_replicate_zero)
    finally show "col (mat_mul U (diag s)) (?k - 1) ! i = replicate (length U) 0 ! i"
      using i by simp
  qed
qed

lemma truncate_shrink_result:
  assumes D: "is_mat m n D" and m: "1 \<le> m" and n: "1 \<le> n" and ell: "1 \<le> ell"
    and sh: "svd_shape svd D" and so: "svd_sorted svd D" and sv: "svd D = (Uf, sf, V)"
  shows "truncate_shrink svd ell D =
           Inr (map (take ell) Uf,
                map (\<lambda>x. sqrt (x\<^sup>2 - (last (take ell sf))\<^sup>2)) (take ell sf),
                mat_mul (map (take ell) Uf)
                  (diag (map (\<lambda>x. sqrt (x\<^sup>2 - (last (take ell sf))\<^sup>2)) (take ell sf))))"
    and "is_mat m (min m n) Uf" and "length sf = min m n" and "take ell sf \<noteq> []"
proof -
  have m0: "0 < m" using m by simp
  have nr: "nrows D = m" using D by (simp add: nrows_def is_mat_def)
  have nc: "ncols D = n" using D m0 by (rule is_mat_ncols)
  show Uf: "is_mat m (min m n) Uf" and sf: "length sf = min m n"
    using sh sv by (simp_all add: svd_shape_def nr nc)
  show ne: "take ell sf \<noteq> []" using sf m n ell by auto
  have srt: "sorted_wrt (\<ge>) sf" and nn: "list_all (\<lambda>x. 0 \<le> x) sf"
    using so sv by (simp_all add: svd_sorted_def)
  have fs: "fd_shrink (take ell sf) =
      Inr (map (\<lambda>x. sqrt (x\<^sup>2 - (last (take ell sf))\<^sup>2)) (take ell sf))"
    using take_desc[OF srt] take_nonneg[OF nn] ne by (rule fd_shrink_sorted)
  have "ncols (map (take ell) Uf) = min ell (min m n)"
    using is_mat_take[OF Uf] m0 by (rule is_mat_ncols)
  then have "ncols (map (take ell) Uf) = length (take ell sf)" using sf by simp
  then show "truncate_shrink svd ell D =
           Inr (map (take ell) Uf,
                map (\<lambda>x. sqrt (x\<^sup>2 - (last (take ell sf))\<^sup>2)) (take ell sf),
                mat_mul (map (take ell) Uf)
                  (diag (map (\<lambda>x. sqrt (x\<^sup>2 - (last (take ell sf))\<^sup>2)) (take ell sf))))"
    by (simp add: truncate_shrink_def sv fs Let_def)
qed

lemma truncate_shrink_wf:
  assumes D: "is_mat m n D" and m: "1 \<le> m" and ell: "1 \<le> ell" and lm: "ell \<le> m" and ln: "ell \<le> n"
    and ok: "svd_ok svd D"
  shows "\<exists>U s B. truncate_shrink svd ell D = Inr (U, s, B) \<and> is_mat m ell U \<and>
           is_mat m ell B \<and> orthonormal_cols U"
proof -
  obtain Uf sf V where sv: "svd D = (Uf, sf, V)" by (cases "svd D") auto
  have sh: "svd_shape svd D" and so: "svd_sorted svd D" and orth: "orthonormal_cols Uf"
    using ok sv by (simp_all add: svd_ok_def svd_orthonormal_def)
  have n: "1 \<le> n" using ell ln by simp
  note r = truncate_shrink_result[OF D m n ell sh so sv]
  let ?U = "map (take ell) Uf"
  let ?s = "map (\<lambda>x. sqrt (x\<^sup>2 - (last (take ell sf))\<^sup>2)) (take ell sf)"
  have mn: "min ell (min m n) = ell" using lm ln by simp
  have U: "is_mat m ell ?U" using is_mat_take[OF r(2), of ell] by (simp add: mn)
  have ls: "length ?s = ell" using r(3) lm ln by simp
  have "?s \<noteq> []" using r(4) by simp
  then have "is_mat m (length ?s) (mat_mul ?U (diag ?s))"
    using U by (intro is_mat_mul_diag) (simp_all add: is_mat_def)
  then have B: "is_mat m ell (mat_mul ?U (diag ?s))" by (simp only: ls)
  have m0: "0 < m" using m by simp
  have O: "orthonormal_cols ?U" using r(2) m0 orth by (rule orthonormal_take)
  from r(1) U B O show ?thesis by blast
qed

subsection \<open>Establishing and keeping the state invariant\<close>

lemma default_ell_pos: "1 \<le> m \<Longrightarrow> 1 \<le> default_ell m"
proof -
  assume "1 \<le> m"
  then have "1 \<le> sqrt (real m)" by simp
  then have "(1::int) \<le> \<lfloor>sqrt (real m)\<rfloor>" by (simp add: le_floor_iff)
  then have "nat 1 \<le> nat \<lfloor>sqrt (real m)\<rfloor>" by (rule nat_mono)
  then show ?thesis by (simp add: default_ell_def)
qed

lemma is_mat_hstack:
  assumes "is_mat m a A" and "is_mat m b B"
  shows "is_mat m (a + b) (hstack A B)"
  using assms by (auto simp: is_mat_def hstack_def list_all_iff set_zip)

lemma is_mat_select_cols: "length Y = m \<Longrightarrow> is_mat m (length idx) (select_cols Y idx)"
  by (simp add: is_mat_def select_cols_def list_all_iff)

lemma hstack_no_columns: "length B = m \<Longrightarrow> hstack B (replicate m []) = B"
  unfolding hstack_def
  by (rule nth_equalityI) simp_all

lemma select_no_columns: "select_cols Y [] = replicate (length Y) []"
  by (simp add: select_cols_def map_replicate_const)

lemma init_wf:
  assumes Y0: "is_mat m n Y0" and m: "1 \<le> m" and ok: "svd_ok svd Y0"
    and l: "l = (if ell < 1 then default_ell m else nat ell)" and lm: "l \<le> m" and ln: "l \<le> n"
  shows "\<exists>st. anom_init svd Y0 c v ell = Inr st \<and> wf_state st \<and> st_m st = m \<and> st_ell st = l"
proof -
  have l1: "1 \<le> l" using l m default_ell_pos by (cases "ell < 1") simp_all
  have nr: "nrows Y0 = m" using Y0 by (simp add: nrows_def is_mat_def)
  from truncate_shrink_wf[OF Y0 m l1 lm ln ok]
  obtain U s B where r: "truncate_shrink svd l Y0 = Inr (U, s, B)" "is_mat m l U"
    "is_mat m l B" "orthonormal_cols U" by blast
  have "anom_init svd Y0 c v ell =
      Inr \<lparr>st_criterion = c, st_criterion_v = v, st_m = m, st_ell = l, st_U = U, st_B = B\<rparr>"
    using r(1) l by (simp add: anom_init_def nr Let_def)
  moreover have "wf_state \<lparr>st_criterion = c, st_criterion_v = v, st_m = m, st_ell = l,
      st_U = U, st_B = B\<rparr>"
    using l1 lm r(2,3,4) by (simp add: wf_state_def)
  ultimately show ?thesis by auto
qed

lemma update_wf:
  assumes wf: "wf_state st" and Y: "is_mat (st_m st) k Y"
    and ok: "svd_ok svd (hstack (st_B st) Y)"
  shows "\<exists>st'. sketch_update svd st Y = Inr st' \<and> wf_state st'"
proof -
  let ?m = "st_m st" and ?l = "st_ell st"
  have l1: "1 \<le> ?l" and lm: "?l \<le> ?m" and B: "is_mat ?m ?l (st_B st)"
    using wf by (simp_all add: wf_state_def)
  have m: "1 \<le> ?m" using l1 lm by simp
  have D: "is_mat ?m (?l + k) (hstack (st_B st) Y)" using B Y by (rule is_mat_hstack)
  have ln: "?l \<le> ?l + k" by simp
  from truncate_shrink_wf[OF D m l1 lm ln ok]
  obtain U s B' where r: "truncate_shrink svd ?l (hstack (st_B st) Y) = Inr (U, s, B')"
    "is_mat ?m ?l U" "is_mat ?m ?l B'" "orthonormal_cols U" by blast
  have nr: "nrows (st_B st) = nrows Y" using B Y by (simp add: nrows_def is_mat_def)
  have "sketch_update svd st Y = Inr (st\<lparr>st_U := U, st_B := B'\<rparr>)"
    using r(1) nr by (simp add: sketch_update_def Let_def)
  moreover have "wf_state (st\<lparr>st_U := U, st_B := B'\<rparr>)"
    using l1 lm r(2,3,4) by (simp add: wf_state_def)
  ultimately show ?thesis by blast
qed

lemma detect_wf:
  assumes wf: "wf_state st" and Y: "is_mat (st_m st) n Y"
    and c: "st_criterion st = ''p'' \<or> st_criterion st = ''th''"
    and ok: "\<forall>a b. split_indices (st_criterion st) (st_criterion_v st) (detect_scores st Y) = Inr (a, b)
               \<longrightarrow> svd_ok svd (hstack (st_B st) (select_cols Y b))"
  shows "\<exists>r. detect svd st Y = Inr r \<and> wf_state (snd r)"
proof -
  obtain a b where ab:
    "split_indices (st_criterion st) (st_criterion_v st) (detect_scores st Y) = Inr (a, b)"
    using c split_p_total split_th_eq by metis
  have lenY: "length Y = st_m st" using Y by (simp add: is_mat_def)
  have Yb: "is_mat (st_m st) (length b) (select_cols Y b)"
    using lenY by (rule is_mat_select_cols)
  have "svd_ok svd (hstack (st_B st) (select_cols Y b))" using ok ab by blast
  from update_wf[OF wf Yb this]
  obtain st' where u: "sketch_update svd st (select_cols Y b) = Inr st'" "wf_state st'" by blast
  have "detect svd st Y = Inr ((a, b), st')"
    using ab u(1) lenY by (simp add: detect_def nrows_def)
  with u(2) show ?thesis by simp
qed

lemma truncate_shrink_zero:
  assumes D: "is_mat m n D" and m: "1 \<le> m" and n: "1 \<le> n" and ell: "1 \<le> ell"
    and sh: "svd_shape svd D" and so: "svd_sorted svd D"
  shows "\<exists>U s B. truncate_shrink svd ell D = Inr (U, s, B) \<and> s \<noteq> [] \<and> last s = 0 \<and>
           (\<forall>x\<in>set s. 0 \<le> x) \<and> B = mat_mul U (diag s) \<and>
           col B (length s - 1) = replicate m 0"
proof -
  obtain Uf sf V where sv: "svd D = (Uf, sf, V)" by (cases "svd D") auto
  note r = truncate_shrink_result[OF D m n ell sh so sv]
  let ?U = "map (take ell) Uf"
  let ?s = "map (\<lambda>x. sqrt (x\<^sup>2 - (last (take ell sf))\<^sup>2)) (take ell sf)"
  have srt: "sorted_wrt (\<ge>) sf" and nn: "list_all (\<lambda>x. 0 \<le> x) sf"
    using so sv by (simp_all add: svd_sorted_def)
  have fs: "fd_shrink (take ell sf) = Inr ?s"
    using take_desc[OF srt] take_nonneg[OF nn] r(4) by (rule fd_shrink_sorted)
  note p = fd_shrink_Inr[OF fs]
  have ne: "?s \<noteq> []" using r(4) by simp
  have lU: "length ?U = m" using r(2) by (simp add: is_mat_def)
  have z: "col (mat_mul ?U (diag ?s)) (length ?s - 1) = replicate m 0"
    using last_col_zero[of ?s ?U] ne p lU by simp
  from r(1) ne p z show ?thesis by blast
qed

subsection \<open>Two special runs of detect\<close>

lemma detect_unbound:
  assumes "st_criterion st \<noteq> ''p''" and "st_criterion st \<noteq> ''th''" and "nrows Y = st_m st"
  shows "detect svd st Y = Inl UnboundLocalError"
  using assms by (simp add: detect_def split_indices_def Let_def)

lemma detect_empty_eq:
  assumes c: "st_criterion st = ''p'' \<or> st_criterion st = ''th''"
    and B: "nrows (st_B st) = st_m st"
  shows "detect svd st (replicate (st_m st) []) =
           (case truncate_shrink svd (st_ell st) (st_B st) of
              Inl e \<Rightarrow> Inl e
            | Inr (U, s, B) \<Rightarrow> Inr (([], []), st\<lparr>st_U := U, st_B := B\<rparr>))"
proof -
  let ?Y = "replicate (st_m st) ([]::real list)"
  have nc: "ncols ?Y = 0" by (cases "st_m st") (simp_all add: ncols_def)
  have sc: "detect_scores st ?Y = []" by (simp add: detect_scores_def nc)
  have sp: "split_indices (st_criterion st) (st_criterion_v st) [] = Inr ([], [])"
    using c by (auto simp: split_indices_def argsort_def py_int_def slice_to_def slice_from_def)
  have sel: "select_cols ?Y [] = ?Y" by (simp add: select_no_columns)
  have hs: "hstack (st_B st) ?Y = st_B st"
    using B by (intro hstack_no_columns) (simp add: nrows_def)
  have up: "sketch_update svd st ?Y =
      (case truncate_shrink svd (st_ell st) (st_B st) of
         Inl e \<Rightarrow> Inl e
       | Inr (U, s, B) \<Rightarrow> Inr (st\<lparr>st_U := U, st_B := B\<rparr>))"
    using B by (simp add: sketch_update_def hs Let_def nrows_def)
  show ?thesis
    by (simp add: detect_def nrows_def sc sp sel up split: sum.splits prod.splits)
qed

subsection \<open>Evaluating the model on the concrete inputs\<close>

lemmas eval_defs =
  nrows_def ncols_def truncate_shrink_def svd_example_def fd_shrink_def mat_mul_def diag_def
  dot_def col_def ex_state_def ex_batch_def select_cols_def sketch_update_def hstack_def
  transpose_m_def identity_def mat_sub_def mat_vec_def vec_sub_def norm2_def is_mat_def
  argsort_def py_int_def slice_to_def slice_from_def upt_conv_Cons Let_def

lemma svd_example_decomposes:
  "list_all (\<lambda>D. case svd_example D of (U, s, Vt) \<Rightarrow> mat_mul (mat_mul U (diag s)) Vt = D)
     [[[1], [0]], [[0], [1]], [[0], [0]], [[0, 3], [0, 0]], [[0, 3, 0], [0, 0, 4]],
      [[1], [0], [0]], [[5, 0], [0, 4]]]"
  by (simp add: svd_example_def) (simp add: eval_defs)

lemma ex_state_reached:
  "anom_init svd_example [[1], [0]] c v 0 = Inr (ex_state c v)"
  by (simp add: anom_init_def default_ell_search eval_defs numeral_2_eq_2)

lemma ex_scores: "detect_scores (ex_state c v) ex_batch = [0, 4]"
  by (simp add: detect_scores_def anomaly_score_def eval_defs)

lemma ex_detect_p:
  "detect svd_example (ex_state ''p'' (1/2)) ex_batch = Inr (([1], [0]), ex_state ''p'' (1/2))"
  by (simp add: detect_def ex_scores split_indices_def) (simp add: eval_defs)

lemma ex_detect_th:
  "detect svd_example (ex_state ''th'' 4) ex_batch =
     Inr (([], [0, 1]), (ex_state ''th'' 4)\<lparr>st_U := [[0], [1]]\<rparr>)"
  by (simp add: detect_def ex_scores split_indices_def) (simp add: eval_defs)

lemma ex_init3:
  "anom_init svd_example [[1], [0], [0]] ''p'' (1/2) 0 =
     Inr \<lparr>st_criterion = ''p'', st_criterion_v = 1/2, st_m = 3, st_ell = 1,
          st_U = [[1], [0], [0]], st_B = [[0], [0], [0]]\<rparr>"
  by (simp add: anom_init_def default_ell_search eval_defs numeral_3_eq_3)

lemma spec_default_ell_3: "spec_default_ell 3 = 2"
proof -
  have "(3/2)\<^sup>2 \<le> (3::real)" by (simp add: power2_eq_square)
  then have lo: "3/2 \<le> sqrt 3" by (rule real_le_rsqrt)
  have "(3::real) < (5/2)\<^sup>2" by (simp add: power2_eq_square)
  then have hi: "sqrt 3 < 5/2" by (intro real_less_lsqrt) simp_all
  have "\<lfloor>sqrt 3 + 1/2\<rfloor> = (2::int)"
    by (rule floor_unique) (use lo hi in simp_all)
  then show ?thesis by (simp add: spec_default_ell_def round_def)
qed

lemmas svd_defs = svd_ok_def svd_shape_def svd_orthonormal_def svd_sorted_def svd_example_def

lemma ex_svd_ok_init: "svd_ok svd_example [[5, 0], [0, 4]]"
  by (simp add: svd_defs) (simp add: orthonormal_cols_def eval_defs)

lemma ex_svd_ok_update: "svd_ok svd_example [[0, 3], [0, 0]]"
  by (simp add: svd_defs) (simp add: orthonormal_cols_def eval_defs)

lemma ex_svd_ok_zero: "svd_ok svd_example [[0], [0]]"
  by (simp add: svd_defs) (simp add: orthonormal_cols_def eval_defs)

lemma ex_state_wf: "wf_state (ex_state c v)"
  by (simp add: wf_state_def orthonormal_cols_def eval_defs)

lemma ex_scores_one: "detect_scores (ex_state c v) [[3], [0]] = [0]"
  by (simp add: detect_scores_def anomaly_score_def eval_defs)

lemma ex_split_one:
  "split_indices ''th'' 1 (detect_scores (ex_state ''th'' 1) [[3], [0]]) = Inr ([], [0])"
  by (simp add: ex_scores_one split_indices_def)

lemma ex_svd_shape_init: "svd_shape svd_example [[5, 0], [0, 4]]"
  by (simp add: svd_shape_def svd_example_def) (simp add: eval_defs)

lemma ex_svd_sorted_init: "svd_sorted svd_example [[5, 0], [0, 4]]"
  by (simp add: svd_sorted_def svd_example_def)

lemma ex_svd_shape_zero: "svd_shape svd_example [[0], [0]]"
  by (simp add: svd_shape_def svd_example_def) (simp add: eval_defs)

lemma ex_svd_sorted_zero: "svd_sorted svd_example [[0], [0]]"
  by (simp add: svd_sorted_def svd_example_def)

lemma ex_svd_shape_unit: "svd_shape svd_example [[1], [0]]"
  by (simp add: svd_shape_def svd_example_def) (simp add: eval_defs)

lemma ex_svd_sorted_unit: "svd_sorted svd_example [[1], [0]]"
  by (simp add: svd_sorted_def svd_example_def)

lemma ex_init_unchecked:
  "anom_init svd_example [[1], [0]] ''xyz'' (- 3) 3 =
     Inr \<lparr>st_criterion = ''xyz'', st_criterion_v = - 3, st_m = 2, st_ell = 3,
          st_U = [[1], [0]], st_B = [[0], [0]]\<rparr>"
  by (simp add: anom_init_def eval_defs)

lemma ex_init_e2:
  "anom_init svd_example [[0], [1]] ''th'' 1 0 =
     Inr \<lparr>st_criterion = ''th'', st_criterion_v = 1, st_m = 2, st_ell = 1,
          st_U = [[0], [1]], st_B = [[0], [0]]\<rparr>"
  by (simp add: anom_init_def default_ell_search eval_defs numeral_2_eq_2)

lemma ex_truncate_zero:
  "truncate_shrink svd_example (Suc 0) [[0], [0]] = Inr ([[1], [0]], [0], [[0], [0]])"
  by (simp add: eval_defs)

section \<open>The claims\<close>

subsection \<open>Scores\<close>

text \<open>
  C1. For a state whose basis \<open>U\<close> has \<open>m\<close> rows (and at least one column) and a batch
  \<open>Y\<close> with \<open>m\<close> rows, \<open>detect\<close> computes one score per column of \<open>Y\<close>, in column order,
  and the score of column \<open>i\<close>, which the code forms as the norm of \<open>(I - U U\<^sup>T) y\<close>, equals
  the norm of the residual \<open>y - U (U\<^sup>T y)\<close>.
\<close>

theorem detect_scores_residual:
  assumes "is_mat (st_m st) k (st_U st)" and "0 < k" and "is_mat (st_m st) n Y"
  shows "length (detect_scores st Y) = ncols Y \<and>
         (\<forall>i<ncols Y. detect_scores st Y ! i = spec_residual_score (st_U st) (col Y i))"
proof -
  have "\<And>i. anomaly_score (st_m st) (st_U st) (col Y i) = spec_residual_score (st_U st) (col Y i)"
  proof -
    fix i
    have "length (col Y i) = st_m st"
      using assms(3) by (simp add: length_col is_mat_nrows)
    with assms(1,2) show "anomaly_score (st_m st) (st_U st) (col Y i)
        = spec_residual_score (st_U st) (col Y i)"
      by (simp add: anomaly_score_def spec_residual_score_def residual_eq)
  qed
  then show ?thesis by (simp add: detect_scores_def)
qed

theorem detect_scores_residual_witness:
  "is_mat (st_m (ex_state ''th'' 1)) 1 (st_U (ex_state ''th'' 1)) \<and> (0::nat) < 1 \<and>
   is_mat (st_m (ex_state ''th'' 1)) 2 ex_batch \<and>
   detect_scores (ex_state ''th'' 1) ex_batch = [0, 4] \<and>
   spec_residual_score (st_U (ex_state ''th'' 1)) (col ex_batch 1) = 4"
proof -
  have h1: "is_mat (st_m (ex_state ''th'' 1)) 1 (st_U (ex_state ''th'' 1))"
    by (simp add: eval_defs)
  have h2: "(0::nat) < 1" by simp
  have h3: "is_mat (st_m (ex_state ''th'' 1)) 2 ex_batch"
    by (simp add: eval_defs)
  have n: "ncols ex_batch = 2" by (simp add: eval_defs)
  from detect_scores_residual[OF h1 h2 h3]
  have "detect_scores (ex_state ''th'' 1) ex_batch ! 1
      = spec_residual_score (st_U (ex_state ''th'' 1)) (col ex_batch 1)"
    by (simp add: n)
  then have "spec_residual_score (st_U (ex_state ''th'' 1)) (col ex_batch 1) = 4"
    by (simp add: ex_scores)
  with h1 h2 h3 show ?thesis by (simp add: ex_scores)
qed

subsection \<open>The two index arrays\<close>

text \<open>
  C2. In both criterion modes (\<open>''p''\<close> and \<open>''th''\<close>) the split of the scores succeeds and
  yields two duplicate-free index lists that are disjoint and together are exactly the
  column indices \<open>0, \<dots>, n - 1\<close> of the batch, so their lengths add up to \<open>n\<close>; whenever
  \<open>detect\<close> returns, these two lists are what it returns.
\<close>

theorem detect_partition:
  assumes "st_criterion st = ''p'' \<or> st_criterion st = ''th''"
  shows "\<exists>a b. split_indices (st_criterion st) (st_criterion_v st) (detect_scores st Y) = Inr (a, b) \<and>
           distinct a \<and> distinct b \<and> set a \<inter> set b = {} \<and> set a \<union> set b = {0..<ncols Y} \<and>
           length a + length b = ncols Y \<and>
           (\<forall>r. detect svd st Y = Inr r \<longrightarrow> fst r = (a, b))"
proof -
  obtain a b where ab:
    "split_indices (st_criterion st) (st_criterion_v st) (detect_scores st Y) = Inr (a, b)"
    using assms split_p_total split_th_eq by metis
  from split_partition[OF assms ab]
  have p: "distinct a \<and> distinct b \<and> set a \<inter> set b = {} \<and> set a \<union> set b = {0..<ncols Y} \<and>
           length a + length b = ncols Y"
    by (simp add: length_detect_scores)
  have "\<forall>r. detect svd st Y = Inr r \<longrightarrow> fst r = (a, b)"
    using detect_Inr_split ab by fastforce
  with ab p show ?thesis by blast
qed

theorem detect_partition_witness:
  "(st_criterion (ex_state ''p'' (1/2)) = ''p'' \<or> st_criterion (ex_state ''p'' (1/2)) = ''th'') \<and>
   detect svd_example (ex_state ''p'' (1/2)) ex_batch = Inr (([1], [0]), ex_state ''p'' (1/2)) \<and>
   set [1::nat] \<inter> set [0] = {} \<and> set [1::nat] \<union> set [0] = {0..<ncols ex_batch}"
proof -
  let ?st = "ex_state ''p'' (1/2)"
  have h: "st_criterion ?st = ''p'' \<or> st_criterion ?st = ''th''"
    by (simp add: ex_state_def)
  from detect_partition[OF h, of ex_batch svd_example]
  obtain a b where ab: "set a \<inter> set b = {}" "set a \<union> set b = {0..<ncols ex_batch}"
    "\<forall>r. detect svd_example ?st ex_batch = Inr r \<longrightarrow> fst r = (a, b)"
    by blast
  from ab(3) have "a = [1] \<and> b = [0]" by (simp add: ex_detect_p)
  with ab(1,2) h show ?thesis by (simp add: ex_detect_p)
qed

text \<open>
  C3. In threshold mode an index is in the anomalous list exactly when its score is strictly
  greater than the threshold, and in the other list exactly when its score is at most the
  threshold; a score equal to the threshold is not anomalous.
\<close>

theorem threshold_mode_classification:
  assumes "st_criterion st = ''th''"
  shows "\<exists>a b. split_indices (st_criterion st) (st_criterion_v st) (detect_scores st Y) = Inr (a, b) \<and>
           (\<forall>i<ncols Y. (i \<in> set a \<longleftrightarrow> detect_scores st Y ! i > st_criterion_v st) \<and>
                        (i \<in> set b \<longleftrightarrow> detect_scores st Y ! i \<le> st_criterion_v st)) \<and>
           (\<forall>i<ncols Y. detect_scores st Y ! i = st_criterion_v st \<longrightarrow> i \<in> set b \<and> i \<notin> set a) \<and>
           (\<forall>r. detect svd st Y = Inr r \<longrightarrow> fst r = (a, b))"
proof -
  let ?sc = "detect_scores st Y" and ?v = "st_criterion_v st"
  let ?a = "filter (\<lambda>i. ?sc ! i > ?v) [0..<length ?sc]"
  let ?b = "filter (\<lambda>i. ?sc ! i \<le> ?v) [0..<length ?sc]"
  have ab: "split_indices (st_criterion st) ?v ?sc = Inr (?a, ?b)"
    using assms by (simp add: split_th_eq)
  have 1: "\<forall>i<ncols Y. (i \<in> set ?a \<longleftrightarrow> ?sc ! i > ?v) \<and> (i \<in> set ?b \<longleftrightarrow> ?sc ! i \<le> ?v)"
    by (simp add: length_detect_scores)
  have 2: "\<forall>i<ncols Y. ?sc ! i = ?v \<longrightarrow> i \<in> set ?b \<and> i \<notin> set ?a"
    by (simp add: length_detect_scores)
  have 3: "\<forall>r. detect svd st Y = Inr r \<longrightarrow> fst r = (?a, ?b)"
    using detect_Inr_split ab by fastforce
  from ab 1 2 3 show ?thesis by blast
qed

theorem threshold_mode_classification_witness:
  "st_criterion (ex_state ''th'' 4) = ''th'' \<and>
   detect_scores (ex_state ''th'' 4) ex_batch = [0, 4] \<and>
   detect svd_example (ex_state ''th'' 4) ex_batch =
     Inr (([], [0, 1]), (ex_state ''th'' 4)\<lparr>st_U := [[0], [1]]\<rparr>) \<and>
   (1::nat) \<in> set [0, 1] \<and> (1::nat) \<notin> set []"
proof -
  let ?st = "ex_state ''th'' 4"
  have h: "st_criterion ?st = ''th''" by (simp add: ex_state_def)
  from threshold_mode_classification[OF h, of ex_batch svd_example]
  obtain a b where ab:
    "\<forall>i<ncols ex_batch. detect_scores ?st ex_batch ! i = st_criterion_v ?st \<longrightarrow> i \<in> set b \<and> i \<notin> set a"
    "\<forall>r. detect svd_example ?st ex_batch = Inr r \<longrightarrow> fst r = (a, b)"
    by blast
  from ab(2) have e: "a = [] \<and> b = [0, 1]" by (simp add: ex_detect_th)
  have "st_criterion_v ?st = 4" "ncols ex_batch = 2" by (simp_all add: eval_defs)
  with ab(1) have "1 \<in> set b \<and> 1 \<notin> set a" by (simp add: ex_scores)
  with e h show ?thesis by (simp add: ex_scores ex_detect_th)
qed

text \<open>
  C4, as amended. In percentage mode, for every permutation that \<open>numpy.argsort\<close> may
  return (the indices in ascending order of score, in any order among equal scores) and
  with the product \<open>n * p\<close> as computed, lying between 0 and \<open>n\<close> as it does for
  \<open>0 \<le> p \<le> 1\<close>: the anomalous list has exactly \<open>int (n * p)\<close> entries (truncation), the
  two lists together are the indices \<open>0, \<dots>, n - 1\<close> once each, and every anomalous index has
  a score at least that of every non-anomalous index. Which of several indices with equal
  scores at the cutoff is anomalous is left to the library's sort. The same holds of the
  model's \<open>split_indices\<close> for \<open>0 \<le> p \<le> 1\<close>. On the scores \<open>[0.1, 5.0, 0.2, 4.0]\<close> with
  \<open>p = 0.5\<close> the anomalous indices are 1 and 3, the others 2 and 0.
\<close>

theorem percentage_mode_top_scores:
  assumes "ascending_argsort scores (asort scores)"
    and "0 \<le> fmul (real (length scores)) p"
    and "fmul (real (length scores)) p \<le> real (length scores)"
  shows "(\<exists>a b. percentage_split asort fmul p scores = (a, b) \<and>
            int (length a) = py_int (fmul (real (length scores)) p) \<and>
            distinct (a @ b) \<and> set (a @ b) = {0..<length scores} \<and>
            (\<forall>i\<in>set a. \<forall>j\<in>set b. scores ! j \<le> scores ! i)) \<and>
         (0 \<le> p \<and> p \<le> 1 \<longrightarrow>
            (\<exists>a b. split_indices ''p'' p scores = Inr (a, b) \<and>
               int (length a) = py_int (real (length scores) * p) \<and>
               (\<forall>i\<in>set a. \<forall>j\<in>set b. scores ! j \<le> scores ! i))) \<and>
         (ascending_argsort [1/10, 5, 2/10, 4] (asort [1/10, 5, 2/10, 4]) \<and> fmul 4 (1/2) = 2
            \<longrightarrow> percentage_split asort fmul (1/2) [1/10, 5, 2/10, 4] = ([1, 3], [2, 0]))"
proof (intro conjI impI)
  show "\<exists>a b. percentage_split asort fmul p scores = (a, b) \<and>
            int (length a) = py_int (fmul (real (length scores)) p) \<and>
            distinct (a @ b) \<and> set (a @ b) = {0..<length scores} \<and>
            (\<forall>i\<in>set a. \<forall>j\<in>set b. scores ! j \<le> scores ! i)"
    using assms by (rule percentage_split_props)
next
  assume p: "0 \<le> p \<and> p \<le> 1"
  then have b: "0 \<le> real (length scores) * p" "real (length scores) * p \<le> real (length scores)"
    using real_product_bounds[of p "length scores"] by blast+
  from percentage_split_props[where asort = argsort and fmul = "(*)", OF argsort_ascending b]
  show "\<exists>a b. split_indices ''p'' p scores = Inr (a, b) \<and>
               int (length a) = py_int (real (length scores) * p) \<and>
               (\<forall>i\<in>set a. \<forall>j\<in>set b. scores ! j \<le> scores ! i)"
    unfolding split_p_percentage by auto
next
  assume a: "ascending_argsort [1/10, 5, 2/10, 4] (asort [1/10, 5, 2/10, 4]) \<and> fmul 4 (1/2) = 2"
  then have "asort [1/10, 5, 2/10, 4] = [0, 2, 3, 1]" using scenario_sorted_unique by blast
  with a show "percentage_split asort fmul (1/2) [1/10, 5, 2/10, 4] = ([1, 3], [2, 0])"
    by (simp add: percentage_split_def Let_def py_int_def slice_to_def slice_from_def)
qed

theorem percentage_mode_top_scores_witness:
  "ascending_argsort [1, 2, 2, 2, 1] [0, 4, 2, 1, 3] \<and>
   (0::real) \<le> real (length [1, 2, 2, 2, 1 :: real]) * (2/5) \<and>
   real (length [1, 2, 2, 2, 1 :: real]) * (2/5) \<le> real (length [1, 2, 2, 2, 1 :: real]) \<and>
   percentage_split (\<lambda>xs. [0, 4, 2, 1, 3]) (*) (2/5) [1, 2, 2, 2, 1] = ([3, 1], [2, 4, 0]) \<and>
   py_int (real (length [1, 2, 2, 2, 1 :: real]) * (2/5)) = 2"
proof -
  let ?sc = "[1, 2, 2, 2, 1 :: real]"
  have dom: "{0..<length ?sc} = {0, 1, 2, 3, 4}" by auto
  have h1: "ascending_argsort ?sc ((\<lambda>xs. [0, 4, 2, 1, 3]) ?sc)"
    unfolding ascending_argsort_def dom by auto
  have h2: "0 \<le> real (length ?sc) * (2/5)" by simp
  have h3: "real (length ?sc) * (2/5) \<le> real (length ?sc)" by simp
  have e: "percentage_split (\<lambda>xs. [0, 4, 2, 1, 3]) (*) (2/5) ?sc = ([3, 1], [2, 4, 0])"
    by (simp add: percentage_split_def Let_def py_int_def slice_to_def slice_from_def)
  from percentage_mode_top_scores[where asort = "\<lambda>xs. [0, 4, 2, 1, 3]" and fmul = "(*)",
      OF h1 h2 h3]
  obtain a b where ab: "percentage_split (\<lambda>xs. [0, 4, 2, 1, 3]) (*) (2/5) ?sc = (a, b)"
    "int (length a) = py_int (real (length ?sc) * (2/5))"
    by blast
  from ab(1) e have "a = [3, 1]" by simp
  with ab(2) have "py_int (real (length ?sc) * (2/5)) = 2" by simp
  with h1 h2 h3 e show ?thesis by simp
qed

text \<open>
  C4, as stated, fails on a tie at the cutoff: for the scores \<open>[1, 1]\<close> and \<open>p = 0.5\<close> the
  ascending order of the indices is \<open>[0, 1]\<close>, its reversal puts index 1 first and the code
  marks index 1 as anomalous, while keeping the original order among equal scores marks
  index 0.
\<close>

theorem percentage_tie_break_counterexample:
  "split_indices ''p'' (1/2) [1, 1] = Inr ([1], [0]) \<and>
   spec_percentage_split (1/2) [1, 1] = ([0], [1])"
  by (simp add: split_indices_def spec_percentage_split_def eval_defs)

subsection \<open>The sketch size\<close>

text \<open>
  C10, as amended. When \<open>ell\<close> is below 1 (the default argument is 0), the stored sketch
  size is \<open>int (sqrt m)\<close>, the square root of the number of rows rounded down, and neither
  \<open>sketch_update\<close> nor \<open>detect\<close> changes it.
\<close>

theorem default_ell_floor_sqrt:
  assumes "anom_init svd Y0 c v ell = Inr st" and "ell < 1"
  shows "st_ell st = nat \<lfloor>sqrt (real (st_m st))\<rfloor> \<and> st_m st = nrows Y0 \<and>
         (\<forall>Y st'. sketch_update svd st Y = Inr st' \<longrightarrow> st_ell st' = st_ell st) \<and>
         (\<forall>Y r. detect svd st Y = Inr r \<longrightarrow> st_ell (snd r) = st_ell st)"
proof -
  have 1: "st_ell st = nat \<lfloor>sqrt (real (st_m st))\<rfloor>" "st_m st = nrows Y0"
    using anom_init_fields(1,2)[OF assms(1)] assms(2) by (simp_all add: default_ell_def)
  have 2: "\<forall>Y st'. sketch_update svd st Y = Inr st' \<longrightarrow> st_ell st' = st_ell st"
    using sketch_update_fields(1) by blast
  have 3: "\<forall>Y r. detect svd st Y = Inr r \<longrightarrow> st_ell (snd r) = st_ell st"
    using detect_Inr_update sketch_update_fields(1) by blast
  from 1 2 3 show ?thesis by blast
qed

theorem default_ell_floor_sqrt_witness:
  "anom_init svd_example [[1], [0], [0]] ''p'' (1/2) 0 =
     Inr \<lparr>st_criterion = ''p'', st_criterion_v = 1/2, st_m = 3, st_ell = 1,
          st_U = [[1], [0], [0]], st_B = [[0], [0], [0]]\<rparr> \<and> (0::int) < 1 \<and>
   nat \<lfloor>sqrt (real 3)\<rfloor> = 1"
proof -
  have h2: "(0::int) < 1" by simp
  from default_ell_floor_sqrt[OF ex_init3 h2]
  have "nat \<lfloor>sqrt (real 3)\<rfloor> = 1" by simp
  with h2 show ?thesis by (simp add: ex_init3)
qed

text \<open>
  C10, as stated, fails for \<open>m = 3\<close>: the code stores \<open>ell = 1\<close>, and the square root of 3
  rounded to the nearest integer is 2.
\<close>

theorem default_ell_round_counterexample:
  "anom_init svd_example [[1], [0], [0]] ''p'' (1/2) 0 =
     Inr \<lparr>st_criterion = ''p'', st_criterion_v = 1/2, st_m = 3, st_ell = 1,
          st_U = [[1], [0], [0]], st_B = [[0], [0], [0]]\<rparr> \<and>
   spec_default_ell 3 = 2"
  by (simp add: ex_init3 spec_default_ell_3)

subsection \<open>The basis\<close>

text \<open>
  C5. Provided the SVD routine returns what it promises for the matrix it is given (a factor
  of the right shape with orthonormal columns, singular values in non-increasing order and
  not negative), a valid initialization (at least one row, \<open>ell\<close> at most the number of
  rows and of columns) returns a state whose basis \<open>U\<close> is an \<open>m\<close>-by-\<open>ell\<close> matrix with
  orthonormal columns, \<open>U\<^sup>T U\<close> being the identity; from a state with this property,
  \<open>sketch_update\<close> and \<open>detect\<close> on a batch with \<open>m\<close> rows return a state with it again.
\<close>

theorem basis_orthonormal_invariant:
  "(is_mat m n Y0 \<and> 1 \<le> m \<and> svd_ok svd Y0 \<and>
      l = (if ell < 1 then default_ell m else nat ell) \<and> l \<le> m \<and> l \<le> n
    \<longrightarrow> (\<exists>st0. anom_init svd Y0 c v ell = Inr st0 \<and> st_m st0 = m \<and> st_ell st0 = l \<and>
           is_mat m l (st_U st0) \<and> orthonormal_cols (st_U st0) \<and> wf_state st0)) \<and>
   (wf_state st \<and> is_mat (st_m st) k Y \<and> svd_ok svd (hstack (st_B st) Y)
    \<longrightarrow> (\<exists>st'. sketch_update svd st Y = Inr st' \<and>
           is_mat (st_m st') (st_ell st') (st_U st') \<and> orthonormal_cols (st_U st') \<and>
           wf_state st')) \<and>
   (wf_state st \<and> is_mat (st_m st) k Y \<and>
      (st_criterion st = ''p'' \<or> st_criterion st = ''th'') \<and>
      (\<forall>a b. split_indices (st_criterion st) (st_criterion_v st) (detect_scores st Y) = Inr (a, b)
               \<longrightarrow> svd_ok svd (hstack (st_B st) (select_cols Y b)))
    \<longrightarrow> (\<exists>r. detect svd st Y = Inr r \<and>
           is_mat (st_m (snd r)) (st_ell (snd r)) (st_U (snd r)) \<and>
           orthonormal_cols (st_U (snd r)) \<and> wf_state (snd r)))"
proof (intro conjI impI)
  assume a: "is_mat m n Y0 \<and> 1 \<le> m \<and> svd_ok svd Y0 \<and>
      l = (if ell < 1 then default_ell m else nat ell) \<and> l \<le> m \<and> l \<le> n"
  then obtain st0 where s: "anom_init svd Y0 c v ell = Inr st0" "wf_state st0" "st_m st0 = m"
    "st_ell st0 = l"
    using init_wf[of m n Y0 svd l ell c v] by blast
  from s(2,3,4) have "is_mat m l (st_U st0) \<and> orthonormal_cols (st_U st0)"
    by (simp add: wf_state_def)
  with s show "\<exists>st0. anom_init svd Y0 c v ell = Inr st0 \<and> st_m st0 = m \<and> st_ell st0 = l \<and>
           is_mat m l (st_U st0) \<and> orthonormal_cols (st_U st0) \<and> wf_state st0" by blast
next
  assume "wf_state st \<and> is_mat (st_m st) k Y \<and> svd_ok svd (hstack (st_B st) Y)"
  then obtain st' where s: "sketch_update svd st Y = Inr st'" "wf_state st'"
    using update_wf[of st k Y svd] by blast
  from s(2) have "is_mat (st_m st') (st_ell st') (st_U st') \<and> orthonormal_cols (st_U st')"
    by (simp add: wf_state_def)
  with s show "\<exists>st'. sketch_update svd st Y = Inr st' \<and>
           is_mat (st_m st') (st_ell st') (st_U st') \<and> orthonormal_cols (st_U st') \<and>
           wf_state st'" by blast
next
  assume "wf_state st \<and> is_mat (st_m st) k Y \<and>
      (st_criterion st = ''p'' \<or> st_criterion st = ''th'') \<and>
      (\<forall>a b. split_indices (st_criterion st) (st_criterion_v st) (detect_scores st Y) = Inr (a, b)
               \<longrightarrow> svd_ok svd (hstack (st_B st) (select_cols Y b)))"
  then obtain r where s: "detect svd st Y = Inr r" "wf_state (snd r)"
    using detect_wf[of st k Y svd] by blast
  from s(2) have "is_mat (st_m (snd r)) (st_ell (snd r)) (st_U (snd r)) \<and>
      orthonormal_cols (st_U (snd r))"
    by (simp add: wf_state_def)
  with s show "\<exists>r. detect svd st Y = Inr r \<and>
           is_mat (st_m (snd r)) (st_ell (snd r)) (st_U (snd r)) \<and>
           orthonormal_cols (st_U (snd r)) \<and> wf_state (snd r)" by blast
qed

theorem basis_orthonormal_invariant_witness:
  "is_mat 2 2 [[5, 0], [0, 4]] \<and> svd_ok svd_example [[5, 0], [0, 4]] \<and>
   wf_state (ex_state ''th'' 1) \<and>
   (\<exists>st0. anom_init svd_example [[5, 0], [0, 4]] ''th'' 1 2 = Inr st0 \<and>
      is_mat 2 2 (st_U st0) \<and> orthonormal_cols (st_U st0)) \<and>
   (\<exists>st'. sketch_update svd_example (ex_state ''th'' 1) [[3], [0]] = Inr st' \<and>
      orthonormal_cols (st_U st')) \<and>
   (\<exists>r. detect svd_example (ex_state ''th'' 1) [[3], [0]] = Inr r \<and>
      orthonormal_cols (st_U (snd r)))"
proof -
  let ?st = "ex_state ''th'' 1"
  have h1: "is_mat 2 2 [[5, 0], [0, 4]]" by (simp add: eval_defs)
  have h2: "(2::nat) = (if (2::int) < 1 then default_ell 2 else nat 2)" by simp
  have h3: "is_mat (st_m ?st) 1 [[3], [0]]" by (simp add: eval_defs)
  have h4: "svd_ok svd_example (hstack (st_B ?st) [[3], [0]])"
    using ex_svd_ok_update by (simp add: eval_defs)
  have h5: "st_criterion ?st = ''p'' \<or> st_criterion ?st = ''th''" by (simp add: ex_state_def)
  have h6: "\<forall>a b. split_indices (st_criterion ?st) (st_criterion_v ?st)
                 (detect_scores ?st [[3], [0]]) = Inr (a, b)
             \<longrightarrow> svd_ok svd_example (hstack (st_B ?st) (select_cols [[3], [0]] b))"
  proof (intro allI impI)
    fix a b
    assume "split_indices (st_criterion ?st) (st_criterion_v ?st)
                 (detect_scores ?st [[3], [0]]) = Inr (a, b)"
    moreover have "st_criterion ?st = ''th''" "st_criterion_v ?st = 1"
      by (simp_all add: ex_state_def)
    ultimately have "b = [0]" using ex_split_one by simp
    then show "svd_ok svd_example (hstack (st_B ?st) (select_cols [[3], [0]] b))"
      using ex_svd_ok_update by (simp add: eval_defs)
  qed
  note t = basis_orthonormal_invariant[where m = 2 and n = 2 and ?Y0.0 = "[[5, 0], [0, 4]]"
      and svd = svd_example and l = 2 and ell = 2 and c = "''th''" and v = 1
      and st = "ex_state ''th'' 1" and k = 1 and Y = "[[3], [0]]"]
  from t h1 h2 ex_svd_ok_init
  have c1: "\<exists>st0. anom_init svd_example [[5, 0], [0, 4]] ''th'' 1 2 = Inr st0 \<and>
      is_mat 2 2 (st_U st0) \<and> orthonormal_cols (st_U st0)"
    by auto
  from t h3 h4 ex_state_wf[of "''th''" 1]
  have c2: "\<exists>st'. sketch_update svd_example ?st [[3], [0]] = Inr st' \<and>
      orthonormal_cols (st_U st')"
    by blast
  from t h3 h5 h6 ex_state_wf[of "''th''" 1]
  have c3: "\<exists>r. detect svd_example ?st [[3], [0]] = Inr r \<and> orthonormal_cols (st_U (snd r))"
    by blast
  from h1 ex_svd_ok_init ex_state_wf c1 c2 c3 show ?thesis by blast
qed

subsection \<open>The shrink step\<close>

text \<open>
  C6. Provided the SVD routine returns factors of the promised shape and singular values in
  non-increasing order and not negative, for every matrix with at least one row and at
  least \<open>ell\<close> columns the truncation and shrink step succeeds, the last retained shrunk
  value is exactly 0 and no shrunk value is below it, and the sketch \<open>B = U diag(s)\<close> built
  from them has a last column of zeros, so 0 is its smallest singular value. This is the
  \<open>B\<close> stored by the constructor and by \<open>sketch_update\<close>.
\<close>

theorem shrink_smallest_zero:
  assumes "is_mat m n D" and "1 \<le> m" and "1 \<le> ell" and "ell \<le> n"
    and "svd_shape svd D" and "svd_sorted svd D"
  shows "\<exists>U s B. truncate_shrink svd ell D = Inr (U, s, B) \<and> s \<noteq> [] \<and> last s = 0 \<and>
           (\<forall>x\<in>set s. 0 \<le> x) \<and> B = mat_mul U (diag s) \<and>
           col B (length s - 1) = replicate m 0 \<and>
           (\<forall>c v. \<exists>st. anom_init svd D c v (int ell) = Inr st \<and> st_B st = B) \<and>
           (\<forall>st Y. hstack (st_B st) Y = D \<and> nrows (st_B st) = nrows Y \<and> st_ell st = ell
              \<longrightarrow> (\<exists>st'. sketch_update svd st Y = Inr st' \<and> st_B st' = B))"
proof -
  have n: "1 \<le> n" using assms(3,4) by simp
  from truncate_shrink_zero[OF assms(1,2) n assms(3,5,6)]
  obtain U s B where r: "truncate_shrink svd ell D = Inr (U, s, B)" "s \<noteq> []" "last s = 0"
    "\<forall>x\<in>set s. 0 \<le> x" "B = mat_mul U (diag s)" "col B (length s - 1) = replicate m 0"
    by blast
  have i: "\<forall>c v. \<exists>st. anom_init svd D c v (int ell) = Inr st \<and> st_B st = B"
    using r(1) assms(3) by (simp add: anom_init_def Let_def)
  have u: "\<forall>st Y. hstack (st_B st) Y = D \<and> nrows (st_B st) = nrows Y \<and> st_ell st = ell
              \<longrightarrow> (\<exists>st'. sketch_update svd st Y = Inr st' \<and> st_B st' = B)"
    using r(1) by (simp add: sketch_update_def Let_def)
  from r i u show ?thesis by blast
qed

theorem shrink_smallest_zero_witness:
  "is_mat 2 2 [[5, 0], [0, 4]] \<and> svd_shape svd_example [[5, 0], [0, 4]] \<and>
   svd_sorted svd_example [[5, 0], [0, 4]] \<and>
   (\<exists>U s B. truncate_shrink svd_example 2 [[5, 0], [0, 4]] = Inr (U, s, B) \<and> last s = 0 \<and>
      col B (length s - 1) = replicate 2 0)"
proof -
  have h1: "is_mat 2 2 [[5, 0], [0, 4]]" by (simp add: eval_defs)
  have h2: "(1::nat) \<le> 2" by simp
  have h3: "(2::nat) \<le> 2" by simp
  from shrink_smallest_zero[OF h1 h2 h2 h3 ex_svd_shape_init ex_svd_sorted_init]
  have "\<exists>U s B. truncate_shrink svd_example 2 [[5, 0], [0, 4]] = Inr (U, s, B) \<and> last s = 0 \<and>
      col B (length s - 1) = replicate 2 0" by blast
  with h1 ex_svd_shape_init ex_svd_sorted_init show ?thesis by blast
qed

text \<open>
  C7. The code takes \<open>sqrt (s\<^sub>i\<^sup>2 - delta)\<close> with \<open>delta\<close> the square of the last retained
  singular value. For every matrix with \<open>1 \<le> ell \<le> min m n\<close>, the singular values being in
  non-increasing order and not negative, no radicand is negative, the step does not fail,
  and its result is the clamped formula \<open>sqrt (max (s\<^sub>i\<^sup>2 - s\<^sub>e\<^sub>l\<^sub>l\<^sub>-\<^sub>1\<^sup>2) 0)\<close>; this includes
  the rank-deficient case where the last retained singular value is 0.
\<close>

theorem shrink_clamped_formula:
  assumes "is_mat m n D" and "1 \<le> m" and "1 \<le> ell" and "ell \<le> m" and "ell \<le> n"
    and "svd_shape svd D" and "svd_sorted svd D"
  shows "fd_shrink (take ell (fst (snd (svd D)))) = Inr (spec_shrink ell (fst (snd (svd D)))) \<and>
         (\<forall>x\<in>set (take ell (fst (snd (svd D)))). 0 \<le> x\<^sup>2 - (fst (snd (svd D)) ! (ell - 1))\<^sup>2) \<and>
         (\<exists>U B. truncate_shrink svd ell D = Inr (U, spec_shrink ell (fst (snd (svd D))), B))"
proof -
  obtain Uf sf V where sv: "svd D = (Uf, sf, V)" by (cases "svd D") auto
  have n: "1 \<le> n" using assms(3,5) by simp
  note r = truncate_shrink_result[OF assms(1,2) n assms(3,6,7) sv]
  have srt: "sorted_wrt (\<ge>) sf" and nn: "list_all (\<lambda>x. 0 \<le> x) sf"
    using assms(7) sv by (simp_all add: svd_sorted_def)
  have len: "ell \<le> length sf" using r(3) assms(4,5) by simp
  have eq: "fd_shrink (take ell sf) = Inr (spec_shrink ell sf)"
    using srt nn assms(3) len by (rule spec_shrink_eq)
  have lt: "last (take ell sf) = sf ! (ell - 1)"
    using assms(3) len r(4) by (simp add: last_conv_nth)
  have rad: "\<forall>x\<in>set (take ell sf). 0 \<le> x\<^sup>2 - (sf ! (ell - 1))\<^sup>2"
  proof
    fix x assume "x \<in> set (take ell sf)"
    from shrink_radicand_nonneg[OF take_desc[OF srt] take_nonneg[OF nn] this]
    show "0 \<le> x\<^sup>2 - (sf ! (ell - 1))\<^sup>2" by (simp only: lt)
  qed
  have "fd_shrink (take ell sf) = Inr (map (\<lambda>x. sqrt (x\<^sup>2 - (last (take ell sf))\<^sup>2)) (take ell sf))"
    using take_desc[OF srt] take_nonneg[OF nn] r(4) by (rule fd_shrink_sorted)
  with eq have "map (\<lambda>x. sqrt (x\<^sup>2 - (last (take ell sf))\<^sup>2)) (take ell sf) = spec_shrink ell sf"
    by simp
  with r(1) have "\<exists>U B. truncate_shrink svd ell D = Inr (U, spec_shrink ell sf, B)" by simp
  with eq rad show ?thesis by (simp add: sv)
qed

theorem shrink_clamped_formula_witness:
  "is_mat 2 1 [[0], [0]] \<and> svd_shape svd_example [[0], [0]] \<and>
   svd_sorted svd_example [[0], [0]] \<and>
   fd_shrink (take 1 (fst (snd (svd_example [[0], [0]])))) = Inr [0] \<and>
   spec_shrink 1 (fst (snd (svd_example [[0], [0]]))) = [0]"
proof -
  have h1: "is_mat 2 1 [[0], [0]]" by (simp add: eval_defs)
  have h2: "(1::nat) \<le> 2" and h3: "(1::nat) \<le> 1" by simp_all
  have e: "spec_shrink 1 (fst (snd (svd_example [[0], [0]]))) = [0]"
    by (simp add: spec_shrink_def svd_example_def)
  from shrink_clamped_formula[OF h1 h2 h3 h2 h3 ex_svd_shape_zero ex_svd_sorted_zero]
  have "fd_shrink (take 1 (fst (snd (svd_example [[0], [0]])))) =
      Inr (spec_shrink 1 (fst (snd (svd_example [[0], [0]]))))"
    by blast
  then have "fd_shrink (take 1 (fst (snd (svd_example [[0], [0]])))) = Inr [0]"
    by (simp only: e)
  with h1 ex_svd_shape_zero ex_svd_sorted_zero e show ?thesis by simp
qed

subsection \<open>Initialization\<close>

text \<open>
  C8, as amended. The constructor validates nothing: for a training matrix with at least
  one row and one column (and an SVD result of the promised shape with sorted, non-negative
  singular values) it returns a state for every criterion string, every criterion value
  and every \<open>ell\<close>; it stores the criterion and its value unchanged, replaces an \<open>ell\<close>
  below 1 by \<open>int (sqrt m)\<close> and keeps any other \<open>ell\<close>. An unrecognized criterion only
  fails later, when \<open>detect\<close> reads the index arrays that no branch has assigned.
\<close>

theorem init_stores_unchecked:
  assumes "is_mat m n Y0" and "1 \<le> m" and "1 \<le> n"
    and "svd_shape svd Y0" and "svd_sorted svd Y0"
  shows "\<exists>st. anom_init svd Y0 c v ell = Inr st \<and> st_criterion st = c \<and>
           st_criterion_v st = v \<and> st_m st = m \<and>
           st_ell st = (if ell < 1 then default_ell m else nat ell) \<and>
           (c \<noteq> ''p'' \<and> c \<noteq> ''th'' \<longrightarrow>
              (\<forall>Y. nrows Y = m \<longrightarrow> detect svd st Y = Inl UnboundLocalError))"
proof -
  let ?l = "if ell < 1 then default_ell m else nat ell"
  obtain Uf sf V where sv: "svd Y0 = (Uf, sf, V)" by (cases "svd Y0") auto
  have l1: "1 \<le> ?l" using assms(2) default_ell_pos by (cases "ell < 1") simp_all
  have nr: "nrows Y0 = m" using assms(1) by (simp add: nrows_def is_mat_def)
  note r = truncate_shrink_result[OF assms(1,2,3) l1 assms(4,5) sv]
  obtain U s B where t: "truncate_shrink svd ?l Y0 = Inr (U, s, B)" using r(1) by blast
  let ?st = "\<lparr>st_criterion = c, st_criterion_v = v, st_m = m, st_ell = ?l, st_U = U, st_B = B\<rparr>"
  have i: "anom_init svd Y0 c v ell = Inr ?st"
    using t by (simp add: anom_init_def nr Let_def)
  have d: "c \<noteq> ''p'' \<and> c \<noteq> ''th'' \<longrightarrow>
      (\<forall>Y. nrows Y = m \<longrightarrow> detect svd ?st Y = Inl UnboundLocalError)"
    using detect_unbound[of ?st] by simp
  show ?thesis
    by (rule exI[of _ ?st]) (use i d in simp)
qed

theorem init_stores_unchecked_witness:
  "is_mat 2 1 [[1], [0]] \<and> svd_shape svd_example [[1], [0]] \<and>
   svd_sorted svd_example [[1], [0]] \<and>
   (\<exists>st. anom_init svd_example [[1], [0]] ''xyz'' (- 3) 3 = Inr st \<and>
      st_criterion st = ''xyz'' \<and> st_criterion_v st = - 3 \<and> st_ell st = 3 \<and>
      detect svd_example st ex_batch = Inl UnboundLocalError)"
proof -
  have h1: "is_mat 2 1 [[1], [0]]" by (simp add: eval_defs)
  have h2: "(1::nat) \<le> 2" and h3: "(1::nat) \<le> 1" by simp_all
  have nb: "nrows ex_batch = 2" by (simp add: eval_defs)
  from init_stores_unchecked[OF h1 h2 h3 ex_svd_shape_unit ex_svd_sorted_unit,
      of "''xyz''" "- 3" 3]
  obtain st where st: "anom_init svd_example [[1], [0]] ''xyz'' (- 3) 3 = Inr st"
    "st_criterion st = ''xyz''" "st_criterion_v st = - 3"
    "st_ell st = (if (3::int) < 1 then default_ell 2 else nat 3)"
    "''xyz'' \<noteq> ''p'' \<and> ''xyz'' \<noteq> ''th'' \<longrightarrow>
       (\<forall>Y. nrows Y = 2 \<longrightarrow> detect svd_example st Y = Inl UnboundLocalError)"
    by blast
  from st(5) nb have "detect svd_example st ex_batch = Inl UnboundLocalError" by simp
  moreover from st(4) have "st_ell st = 3" by simp
  ultimately show ?thesis using h1 ex_svd_shape_unit ex_svd_sorted_unit st(1,2,3) by blast
qed

text \<open>
  C8, as stated, fails: with a training matrix of one column and two rows, \<open>ell = 3\<close>, the
  criterion \<open>''xyz''\<close> and the value \<open>-3\<close> the constructor returns a state, and with
  \<open>ell = -5\<close> it returns the state of the default sketch size.
\<close>

theorem init_validation_counterexample:
  "anom_init svd_example [[1], [0]] ''xyz'' (- 3) 3 =
     Inr \<lparr>st_criterion = ''xyz'', st_criterion_v = - 3, st_m = 2, st_ell = 3,
          st_U = [[1], [0]], st_B = [[0], [0]]\<rparr> \<and>
   anom_init svd_example [[1], [0]] ''p'' (1/2) (- 5) = Inr (ex_state ''p'' (1/2))"
  by (simp add: anom_init_def default_ell_search eval_defs numeral_2_eq_2)

subsection \<open>The empty batch\<close>

text \<open>
  C9, as amended. On a batch without columns, in both criterion modes, \<open>detect\<close> returns two
  empty index lists, and the state it leaves is the truncated, shrunk SVD of the stored
  \<open>B\<close> alone: the new \<open>U\<close> and \<open>B\<close> are recomputed from \<open>B\<close> and do not depend on the
  old \<open>U\<close>. From a well-formed state, with an SVD result of the promised shape and order,
  the call returns.
\<close>

theorem detect_empty_batch:
  assumes "st_criterion st = ''p'' \<or> st_criterion st = ''th''"
    and "nrows (st_B st) = st_m st"
  shows "detect svd st (replicate (st_m st) []) =
           (case truncate_shrink svd (st_ell st) (st_B st) of
              Inl e \<Rightarrow> Inl e
            | Inr (U, s, B) \<Rightarrow> Inr (([], []), st\<lparr>st_U := U, st_B := B\<rparr>)) \<and>
         (wf_state st \<and> svd_shape svd (st_B st) \<and> svd_sorted svd (st_B st) \<longrightarrow>
            (\<exists>st'. detect svd st (replicate (st_m st) []) = Inr (([], []), st')))"
proof -
  note e = detect_empty_eq[OF assms, of svd]
  have "\<exists>st'. detect svd st (replicate (st_m st) []) = Inr (([], []), st')"
    if w: "wf_state st" and sh: "svd_shape svd (st_B st)" and so: "svd_sorted svd (st_B st)"
  proof -
    have l1: "1 \<le> st_ell st" and lm: "st_ell st \<le> st_m st"
      and B: "is_mat (st_m st) (st_ell st) (st_B st)"
      using w by (simp_all add: wf_state_def)
    have m: "1 \<le> st_m st" using l1 lm by simp
    obtain Uf sf V where sv: "svd (st_B st) = (Uf, sf, V)" by (cases "svd (st_B st)") auto
    from truncate_shrink_result(1)[OF B m l1 l1 sh so sv]
    show ?thesis unfolding e by simp
  qed
  with e show ?thesis by blast
qed

theorem detect_empty_batch_witness:
  "(st_criterion (ex_state ''p'' (1/2)) = ''p'' \<or> st_criterion (ex_state ''p'' (1/2)) = ''th'') \<and>
   nrows (st_B (ex_state ''p'' (1/2))) = st_m (ex_state ''p'' (1/2)) \<and>
   detect svd_example (ex_state ''p'' (1/2)) [[], []] = Inr (([], []), ex_state ''p'' (1/2))"
proof -
  let ?st = "ex_state ''p'' (1/2)"
  have h1: "st_criterion ?st = ''p'' \<or> st_criterion ?st = ''th''" by (simp add: ex_state_def)
  have h2: "nrows (st_B ?st) = st_m ?st" by (simp add: eval_defs)
  have m: "replicate (st_m ?st) [] = [[], []::real list]"
    by (simp add: ex_state_def numeral_2_eq_2)
  have f: "st_ell ?st = 1" "st_B ?st = [[0], [0]]" by (simp_all add: ex_state_def)
  from detect_empty_batch[OF h1 h2, of svd_example]
  have "detect svd_example ?st [[], []] =
      (case truncate_shrink svd_example 1 [[0], [0]] of
         Inl e \<Rightarrow> Inl e
       | Inr (U, s, B) \<Rightarrow> Inr (([], []), ?st\<lparr>st_U := U, st_B := B\<rparr>))"
    by (simp only: m f)
  then have "detect svd_example ?st [[], []] = Inr (([], []), ?st)"
    by (simp add: ex_truncate_zero ex_state_def)
  with h1 h2 show ?thesis by blast
qed

text \<open>
  C9, as stated, fails: after training on the single column \<open>(0, 1)\<close> the basis is that
  column and \<open>B\<close> is zero; \<open>detect\<close> on a batch without columns decomposes the zero matrix
  and replaces the basis by the column \<open>(1, 0)\<close>.
\<close>

theorem detect_empty_batch_counterexample:
  "anom_init svd_example [[0], [1]] ''th'' 1 0 =
     Inr \<lparr>st_criterion = ''th'', st_criterion_v = 1, st_m = 2, st_ell = 1,
          st_U = [[0], [1]], st_B = [[0], [0]]\<rparr> \<and>
   detect svd_example
     \<lparr>st_criterion = ''th'', st_criterion_v = 1, st_m = 2, st_ell = 1,
      st_U = [[0], [1]], st_B = [[0], [0]]\<rparr> [[], []] =
     Inr (([], []),
          \<lparr>st_criterion = ''th'', st_criterion_v = 1, st_m = 2, st_ell = 1,
           st_U = [[1], [0]], st_B = [[0], [0]]\<rparr>)"
proof -
  have "detect svd_example
     \<lparr>st_criterion = ''th'', st_criterion_v = 1, st_m = 2, st_ell = 1,
      st_U = [[0], [1]], st_B = [[0], [0]]\<rparr> [[], []] =
     Inr (([], []),
          \<lparr>st_criterion = ''th'', st_criterion_v = 1, st_m = 2, st_ell = 1,
           st_U = [[1], [0]], st_B = [[0], [0]]\<rparr>)"
    by (simp add: detect_def detect_scores_def split_indices_def nrows_def ncols_def)
       (simp add: eval_defs)
  with ex_init_e2 show ?thesis by simp
qed

end
